theory Spec2Isabelle
  imports Complex_Main "HOL-Library.AList"
begin

section \<open>The task manager of the system app\<close>

text \<open>
  The program is the \<^verbatim>\<open>TaskManager\<close> object of
  \<^verbatim>\<open>src/apps/email/build/gelam_worker.build.js\<close> (lines 91 to 640). Its
  methods read the window stack, the viewport and the scroll position from the
  browser and write to the DOM. Here every method is a function on a record of
  the object's fields; what a method reads from outside is a field of \<open>Env\<close>,
  what it writes outside is appended to the list \<open>effects\<close>, and a callback
  that is to run later is an entry of \<open>pending\<close>.
\<close>

subsection \<open>Numbers\<close>

text \<open>
  A JavaScript number is a rational, an infinity or NaN. The operands that reach
  these operations are pixel counts and halves of pixel counts, on which double
  arithmetic is exact; the only zero among them is \<open>+0\<close>.
\<close>

datatype jsnum = Num rat | PosInfinity | NegInfinity | NaN

fun js_add :: "jsnum \<Rightarrow> jsnum \<Rightarrow> jsnum" where
  "js_add NaN _ = NaN"
| "js_add _ NaN = NaN"
| "js_add (Num a) (Num b) = Num (a + b)"
| "js_add PosInfinity NegInfinity = NaN"
| "js_add NegInfinity PosInfinity = NaN"
| "js_add PosInfinity _ = PosInfinity"
| "js_add _ PosInfinity = PosInfinity"
| "js_add NegInfinity _ = NegInfinity"
| "js_add _ NegInfinity = NegInfinity"

fun js_mul :: "jsnum \<Rightarrow> jsnum \<Rightarrow> jsnum" where
  "js_mul NaN _ = NaN"
| "js_mul _ NaN = NaN"
| "js_mul (Num a) (Num b) = Num (a * b)"
| "js_mul (Num a) PosInfinity =
     (if a = 0 then NaN else if 0 < a then PosInfinity else NegInfinity)"
| "js_mul (Num a) NegInfinity =
     (if a = 0 then NaN else if 0 < a then NegInfinity else PosInfinity)"
| "js_mul PosInfinity (Num b) =
     (if b = 0 then NaN else if 0 < b then PosInfinity else NegInfinity)"
| "js_mul NegInfinity (Num b) =
     (if b = 0 then NaN else if 0 < b then NegInfinity else PosInfinity)"
| "js_mul PosInfinity PosInfinity = PosInfinity"
| "js_mul NegInfinity NegInfinity = PosInfinity"
| "js_mul PosInfinity NegInfinity = NegInfinity"
| "js_mul NegInfinity PosInfinity = NegInfinity"

fun js_div :: "jsnum \<Rightarrow> jsnum \<Rightarrow> jsnum" where
  "js_div NaN _ = NaN"
| "js_div _ NaN = NaN"
| "js_div (Num a) (Num b) =
     (if b \<noteq> 0 then Num (a / b)
      else if 0 < a then PosInfinity else if a < 0 then NegInfinity else NaN)"
| "js_div (Num a) _ = Num 0"
| "js_div PosInfinity (Num b) = (if 0 \<le> b then PosInfinity else NegInfinity)"
| "js_div NegInfinity (Num b) = (if 0 \<le> b then NegInfinity else PosInfinity)"
| "js_div _ _ = NaN"

fun Math_floor :: "jsnum \<Rightarrow> jsnum" where
  "Math_floor (Num a) = Num (of_int \<lfloor>a\<rfloor>)"
| "Math_floor x = x"

fun Math_min :: "jsnum \<Rightarrow> jsnum \<Rightarrow> jsnum" where
  "Math_min NaN _ = NaN"
| "Math_min _ NaN = NaN"
| "Math_min NegInfinity _ = NegInfinity"
| "Math_min _ NegInfinity = NegInfinity"
| "Math_min PosInfinity x = x"
| "Math_min x PosInfinity = x"
| "Math_min (Num a) (Num b) = Num (min a b)"

text \<open>\<^verbatim>\<open>a === b\<close> on numbers: NaN equals nothing, itself included.\<close>

definition strictEquals :: "jsnum \<Rightarrow> jsnum \<Rightarrow> bool" where
  "strictEquals a b = (a \<noteq> NaN \<and> a = b)"

subsection \<open>Arrays and maps\<close>

text \<open>\<^verbatim>\<open>xs.indexOf(x)\<close>: the first position of \<open>x\<close>, or \<open>-1\<close>.\<close>

fun indexOf :: "'a list \<Rightarrow> 'a \<Rightarrow> int" where
  "indexOf [] x = - 1"
| "indexOf (y # ys) x =
     (if y = x then 0
      else (let i = indexOf ys x in if i = - 1 then - 1 else i + 1))"

text \<open>
  \<^verbatim>\<open>xs[i]\<close>: the element at \<open>i\<close>, and \<^verbatim>\<open>undefined\<close> (\<open>None\<close>) when \<open>i\<close>
  is negative, too large, not an integer, infinite or NaN.
\<close>

fun arrayAt :: "'a list \<Rightarrow> jsnum \<Rightarrow> 'a option" where
  "arrayAt xs (Num q) =
     (if q = of_int \<lfloor>q\<rfloor> \<and> 0 \<le> q \<and> q < of_nat (length xs)
      then Some (xs ! nat \<lfloor>q\<rfloor>) else None)"
| "arrayAt xs _ = None"

text \<open>
  A \<^verbatim>\<open>Map\<close> is an association list in insertion order: \<^verbatim>\<open>get\<close> is
  \<open>map_of\<close>, \<^verbatim>\<open>set\<close> is \<open>AList.update\<close> (a new key goes to the end),
  \<^verbatim>\<open>delete\<close> is \<open>AList.delete\<close>, and \<^verbatim>\<open>forEach\<close> visits the keys in
  list order.
\<close>

subsection \<open>Windows, cards, the environment\<close>

record Manifest =
  role :: "string option"

text \<open>
  An \<^verbatim>\<open>AppWindow\<close>: \<open>instanceID\<close> stands for the identity of the object
  and of its \<^verbatim>\<open>element\<close>.
\<close>

record AppWindow =
  instanceID :: nat
  isBrowser :: bool
  manifest :: "Manifest option"
  isHomescreen :: bool

text \<open>
  A \<^verbatim>\<open>Card\<close>, made by \<^verbatim>\<open>new Card(app, disableScreenshots)\<close>. Its
  \<open>element\<close> is a fresh DOM node, numbered by the allocation counter
  \<open>nextElement\<close>; two cards are the same object when their elements are.
\<close>

record Card =
  element :: nat
  app :: AppWindow
  screenshotsDisabled :: bool

text \<open>What the methods read from the browser and from the other modules.\<close>

record Env =
  snapshot :: "AppWindow list"
  getCurrent :: "AppWindow option"
  innerWidth :: nat
  innerHeight :: nat
  scrollLeft :: int
  getActiveWindow :: "AppWindow option"
  getHomescreen :: "AppWindow option"

datatype attr = BoolAttr bool | NumAttr nat

datatype effect =
    NewCard Card
  | AppendChild nat
  | RemoveChild nat
  | EnterTaskManager AppWindow
  | LeaveTaskManager AppWindow
  | SetL10n string
  | ClassToggle string string bool
  | ClassAdd string string
  | ClassRemove string string
  | Translate Card rat
  | SetListWidth rat
  | SetAttribute Card string attr
  | ScrollTo jsnum bool
  | Publish string "nat option"
  | AddEventListener string string
  | RemoveEventListener string string
  | AppOpen AppWindow string
  | AppClose AppWindow string
  | Kill AppWindow
  | ConsoleLog Card

text \<open>
  What a registered callback waits for: a promise that is already resolved, a
  timer, \<^verbatim>\<open>TaskManagerUtils.waitForScreenToBeReady()\<close>,
  \<^verbatim>\<open>TaskManagerUtils.waitForAppToClose(app)\<close>, or
  \<^verbatim>\<open>eventSafety(element, event, callback, timeout)\<close>. The last three are
  not among the sources: when their wait is over is for the environment to say,
  by \<open>deliver\<close>.
\<close>

datatype wait =
    Settled
  | Timer nat
  | ScreenToBeReady
  | AppToClose "AppWindow option"
  | EventSafety nat string nat

datatype continuation =
    ShowAttach
  | ShowFinish
  | HideFinish
  | KillApp AppWindow
  | HideApp AppWindow

text \<open>
  \<^verbatim>\<open>this.currentCard\<close>: \<^verbatim>\<open>null\<close> from the constructor, then what
  \<^verbatim>\<open>Map.get\<close> gave, \<^verbatim>\<open>undefined\<close> or a card.
\<close>

datatype card_ref = Null | Undefined | Ref Card

datatype error = TypeError | NotFoundError

text \<open>
  The fields of the object (\<^verbatim>\<open>_active\<close>, \<^verbatim>\<open>_isTransitioning\<close> and
  \<^verbatim>\<open>_browserOnly\<close> without the underscore), and after them what lies outside
  it: the children of \<^verbatim>\<open>#cards-list\<close>, the counter that numbers the elements
  of new cards, the callbacks registered and not yet run, and the effects so far.
\<close>

record TaskManager =
  appToCardMap :: "(AppWindow \<times> Card) list"
  elementToCardMap :: "(nat \<times> Card) list"
  stack :: "AppWindow list"
  currentCard :: card_ref
  active :: bool
  disableScreenshots :: bool
  isTransitioning :: bool
  browserOnly :: bool
  cardWidth :: jsnum
  cardHeight :: jsnum
  cardsList :: "nat list"
  nextElement :: nat
  pending :: "(wait \<times> continuation) list"
  effects :: "effect list"

text \<open>
  A method either returns the new state or throws; the state at the throw is
  kept, since the assignments made before it stay.
\<close>

type_synonym result = "(error \<times> TaskManager) + TaskManager"

definition CARD_GUTTER :: rat where
  "CARD_GUTTER = 25"

text \<open>
  The constructor. The fields it does not assign are \<^verbatim>\<open>undefined\<close>: the two
  flags are then falsy, and \<^verbatim>\<open>cardWidth\<close> is NaN in every arithmetic use.
\<close>

definition newTaskManager :: TaskManager where
  "newTaskManager =
     \<lparr>appToCardMap = [], elementToCardMap = [], stack = [], currentCard = Null,
      active = False, disableScreenshots = False, isTransitioning = False,
      browserOnly = False, cardWidth = NaN, cardHeight = NaN,
      cardsList = [], nextElement = 0, pending = [], effects = []\<rparr>"

definition emit :: "effect list \<Rightarrow> TaskManager \<Rightarrow> TaskManager" where
  "emit es s = s\<lparr>effects := effects s @ es\<rparr>"

subsection \<open>Cards of the stack\<close>

text \<open>
  \<^verbatim>\<open>_addApp\<close>. \<^verbatim>\<open>appendChild\<close> puts the node last, moving it when it is
  a child already.
\<close>

definition addApp :: "AppWindow \<Rightarrow> TaskManager \<Rightarrow> Card \<times> TaskManager" where
  "addApp a s =
     (let crd = \<lparr>element = nextElement s, app = a,
                  screenshotsDisabled = disableScreenshots s\<rparr>;
          s1 = emit [NewCard crd] (s\<lparr>nextElement := Suc (nextElement s)\<rparr>);
          s2 = emit [AppendChild (element crd)]
                 (s1\<lparr>cardsList := removeAll (element crd) (cardsList s1) @ [element crd]\<rparr>);
          s3 = s2\<lparr>elementToCardMap := AList.update (element crd) crd (elementToCardMap s2)\<rparr>;
          s4 = s3\<lparr>appToCardMap := AList.update a crd (appToCardMap s3)\<rparr>
      in (crd, s4))"

text \<open>
  \<^verbatim>\<open>_removeApp\<close>. \<^verbatim>\<open>removeChild\<close> throws a \<^verbatim>\<open>NotFoundError\<close> when the
  node is not a child of the list.
\<close>

definition removeApp :: "AppWindow \<Rightarrow> TaskManager \<Rightarrow> result" where
  "removeApp a s =
     (case map_of (appToCardMap s) a of
        None \<Rightarrow> Inr s
      | Some crd \<Rightarrow>
          (let s1 = s\<lparr>appToCardMap := AList.delete a (appToCardMap s)\<rparr>;
               s2 = s1\<lparr>elementToCardMap := AList.delete (element crd) (elementToCardMap s1)\<rparr>
           in if element crd \<in> set (cardsList s2)
              then Inr (emit [RemoveChild (element crd)]
                         (s2\<lparr>cardsList := remove1 (element crd) (cardsList s2)\<rparr>))
              else Inl (NotFoundError, s2)))"

subsection \<open>Position tracking\<close>

definition getCurrentIndex :: "Env \<Rightarrow> TaskManager \<Rightarrow> jsnum" where
  "getCurrentIndex env s =
     Math_min (Num (of_nat (length (stack s)) - 1))
       (Math_floor (js_div (Num (of_int (scrollLeft env))) (cardWidth s)))"

text \<open>
  \<^verbatim>\<open>this.appToCardMap.get(this.stack[index])\<close>, the first two lines of
  \<^verbatim>\<open>updateScrollPosition\<close>. No key of the map is \<^verbatim>\<open>undefined\<close>.
\<close>

definition cardAtScroll :: "Env \<Rightarrow> TaskManager \<Rightarrow> card_ref" where
  "cardAtScroll env s =
     (case arrayAt (stack s) (getCurrentIndex env s) of
        None \<Rightarrow> Undefined
      | Some a \<Rightarrow> (case map_of (appToCardMap s) a of None \<Rightarrow> Undefined | Some c \<Rightarrow> Ref c))"

text \<open>The loop of \<^verbatim>\<open>updateScrollPosition\<close>, from position \<open>idx\<close> on.\<close>

fun setAria :: "card_ref \<Rightarrow> nat \<Rightarrow> AppWindow list \<Rightarrow> TaskManager \<Rightarrow> result" where
  "setAria cur idx [] s = Inr s"
| "setAria cur idx (a # as) s =
     (case map_of (appToCardMap s) a of
        None \<Rightarrow> Inl (TypeError, s)
      | Some crd \<Rightarrow>
          setAria cur (Suc idx) as
            (emit [SetAttribute crd ''aria-hidden'' (BoolAttr (Ref crd \<noteq> cur)),
                   SetAttribute crd ''aria-setsize'' (NumAttr (length (stack s))),
                   SetAttribute crd ''aria-posinset'' (NumAttr (idx + 1))] s))"

definition updateScrollPosition :: "Env \<Rightarrow> TaskManager \<Rightarrow> result" where
  "updateScrollPosition env s =
     (let currentCard' = cardAtScroll env s
      in if currentCard s \<noteq> currentCard'
         then setAria currentCard' 0 (stack s) (s\<lparr>currentCard := currentCard'\<rparr>)
         else Inr s)"

subsection \<open>Layout\<close>

text \<open>The loop of \<^verbatim>\<open>updateLayout\<close>, from position \<open>index\<close> on.\<close>

fun translateCards :: "rat \<Rightarrow> rat \<Rightarrow> nat \<Rightarrow> AppWindow list \<Rightarrow> TaskManager \<Rightarrow> result" where
  "translateCards cw margins index [] s = Inr s"
| "translateCards cw margins index (a # as) s =
     (case map_of (appToCardMap s) a of
        None \<Rightarrow> Inl (TypeError, s)
      | Some crd \<Rightarrow>
          (let offset = cw + CARD_GUTTER;
               left = (margins / 2) + (offset * of_nat index)
           in translateCards cw margins (Suc index) as (emit [Translate crd left] s)))"

definition updateLayout :: "Env \<Rightarrow> TaskManager \<Rightarrow> result" where
  "updateLayout env s =
     (let cw = of_nat (innerWidth env) / 2;
          s1 = s\<lparr>cardWidth := Num cw, cardHeight := Num (of_nat (innerHeight env) / 2)\<rparr>;
          count = of_nat (length (stack s1));
          margins = of_nat (innerWidth env) - cw;
          cardStripWidth = cw * count + CARD_GUTTER * (count - 1);
          contentWidth = margins + max cw cardStripWidth
      in case translateCards cw margins 0 (stack s1) s1 of
           Inl e \<Rightarrow> Inl e
         | Inr s2 \<Rightarrow> updateScrollPosition env (emit [SetListWidth contentWidth] s2))"

subsection \<open>Reconciliation with the stack\<close>

definition browserFilter :: "AppWindow \<Rightarrow> bool" where
  "browserFilter a =
     (isBrowser a \<or> (case manifest a of None \<Rightarrow> False | Some m \<Rightarrow> role m = Some ''search''))"

text \<open>
  The first loop of \<^verbatim>\<open>updateStack\<close>, over the keys of the map. Deleting the
  entry being visited does not disturb \<^verbatim>\<open>Map.forEach\<close>, so the loop runs
  over the keys the map had at its start.
\<close>

fun removeMissing :: "AppWindow list \<Rightarrow> AppWindow list \<Rightarrow> TaskManager \<Rightarrow> result" where
  "removeMissing latest [] s = Inr s"
| "removeMissing latest (a # as) s =
     (if a \<notin> set latest
      then (case removeApp a s of
              Inl e \<Rightarrow> Inl e
            | Inr s' \<Rightarrow> removeMissing latest as s')
      else removeMissing latest as s)"

text \<open>The second loop of \<^verbatim>\<open>updateStack\<close>, over the stack.\<close>

fun addMissing :: "AppWindow list \<Rightarrow> TaskManager \<Rightarrow> TaskManager" where
  "addMissing [] s = s"
| "addMissing (a # as) s =
     (case map_of (appToCardMap s) a of
        None \<Rightarrow> addMissing as (emit [EnterTaskManager a] (snd (addApp a s)))
      | Some crd \<Rightarrow> addMissing as s)"

definition updateStack :: "Env \<Rightarrow> TaskManager \<Rightarrow> result" where
  "updateStack env s =
     (let s1 = s\<lparr>stack := snapshot env\<rparr>;
          s2 = (if browserOnly s1 then s1\<lparr>stack := filter browserFilter (stack s1)\<rparr> else s1);
          s3 = emit [SetL10n (if browserOnly s2 then ''no-recent-browser-windows''
                              else ''no-recent-app-windows''),
                     ClassToggle ''task-manager'' ''filtered'' (browserOnly s2)] s2
      in case removeMissing (stack s3) (map fst (appToCardMap s3)) s3 of
           Inl e \<Rightarrow> Inl e
         | Inr s4 \<Rightarrow> updateLayout env (addMissing (stack s4) s4))"

subsection \<open>Panning\<close>

text \<open>
  \<^verbatim>\<open>panToApp(app, immediately)\<close>; \<open>None\<close> is an \<^verbatim>\<open>undefined\<close> argument,
  which \<^verbatim>\<open>indexOf\<close> does not find. The result is what the returned promise
  waits for: nothing, or the timer of 200.
\<close>

definition panToApp :: "Env \<Rightarrow> AppWindow option \<Rightarrow> bool \<Rightarrow> TaskManager \<Rightarrow> wait \<times> TaskManager" where
  "panToApp env a immediately s =
     (let idx0 = (case a of None \<Rightarrow> - 1 | Some w \<Rightarrow> indexOf (stack s) w);
          idx = (if idx0 = - 1 then int (length (stack s)) - 1 else idx0);
          currentPosition = Num (of_int (scrollLeft env));
          desiredPosition = js_mul (js_add (cardWidth s) (Num CARD_GUTTER)) (Num (of_int idx))
      in if strictEquals currentPosition desiredPosition then (Settled, s)
         else (Timer 200, emit [ScrollTo desiredPosition (\<not> immediately)] s))"

subsection \<open>Showing and hiding\<close>

definition isActive :: "TaskManager \<Rightarrow> bool" where
  "isActive s = active s"

definition isShown :: "TaskManager \<Rightarrow> bool" where
  "isShown s = isActive s"

definition publish :: "string \<Rightarrow> nat option \<Rightarrow> TaskManager \<Rightarrow> TaskManager" where
  "publish type detail s = emit [Publish type detail] s"

definition setActive :: "bool \<Rightarrow> TaskManager \<Rightarrow> TaskManager" where
  "setActive a s =
     (if active s = a then s
      else (let s1 = s\<lparr>isTransitioning := False, active := a\<rparr>;
                s2 = (if a then publish ''taskmanager-activated'' None s1
                      else publish ''taskmanager-deactivated'' None s1)
            in emit [ClassToggle ''task-manager'' ''active'' a,
                     ClassToggle ''task-manager'' ''empty'' (a \<and> length (stack s2) = 0)] s2))"

text \<open>The listeners that \<^verbatim>\<open>show\<close> adds and \<^verbatim>\<open>hide\<close> removes, in order.\<close>

definition listeners :: "(string \<times> string) list" where
  "listeners =
     [(''window'', ''lockscreen-appopened''), (''window'', ''attentionopened''),
      (''window'', ''appopen''), (''window'', ''appterminated''),
      (''window'', ''wheel''), (''window'', ''resize''),
      (''task-manager'', ''click''), (''task-manager'', ''card-will-drag''),
      (''task-manager'', ''card-dropped''), (''cards-view'', ''scroll'')]"

text \<open>
  \<^verbatim>\<open>show(opts)\<close> up to the first wait; \<open>bo\<close> is the truth value of
  \<^verbatim>\<open>opts && opts.browserOnly\<close>. In the guarded branch the method returns
  \<^verbatim>\<open>Promise.resolve()\<close>: nothing is registered.
\<close>

definition showTM :: "bool \<Rightarrow> TaskManager \<Rightarrow> TaskManager" where
  "showTM bo s =
     (if isShown s \<or> isTransitioning s then s
      else (let s1 = s\<lparr>isTransitioning := True\<rparr>;
                s2 = s1\<lparr>browserOnly := bo\<rparr>;
                s3 = publish ''cardviewbeforeshow'' None s2
            in s3\<lparr>pending := pending s3 @ [(ScreenToBeReady, ShowAttach)]\<rparr>))"

text \<open>The first \<^verbatim>\<open>then\<close> callback of \<^verbatim>\<open>show\<close>.\<close>

definition showAttach :: "Env \<Rightarrow> TaskManager \<Rightarrow> result" where
  "showAttach env s =
     (let s1 = emit (map (\<lambda>(t, e). AddEventListener t e) listeners) s
      in case updateStack env s1 of
           Inl e \<Rightarrow> Inl e
         | Inr s2 \<Rightarrow>
             (let s3 = snd (panToApp env (getCurrent env) True s2);
                  s4 = setActive True s3;
                  activeApp = getActiveWindow env;
                  s5 = (case activeApp of
                          None \<Rightarrow> s4
                        | Some a \<Rightarrow>
                            if isHomescreen a
                            then emit [AppClose a ''home-to-cardview'',
                                       ClassAdd ''task-manager'' ''from-home''] s4
                            else s4)
              in Inr (s5\<lparr>pending := pending s5 @ [(AppToClose activeApp, ShowFinish)]\<rparr>)))"

text \<open>The second \<^verbatim>\<open>then\<close> callback of \<^verbatim>\<open>show\<close>.\<close>

definition showFinish :: "TaskManager \<Rightarrow> TaskManager" where
  "showFinish s =
     emit [ClassAdd ''screen'' ''cards-view'', ClassRemove ''task-manager'' ''from-home'']
       (publish ''cardviewshown'' None s)"

text \<open>
  \<^verbatim>\<open>hide(newApp, animation)\<close> up to \<^verbatim>\<open>eventSafety\<close>. Reading
  \<^verbatim>\<open>newApp.isHomescreen\<close> throws a \<^verbatim>\<open>TypeError\<close> when none of the three
  sources gave a window.
\<close>

definition hideTM :: "Env \<Rightarrow> AppWindow option \<Rightarrow> string option \<Rightarrow> TaskManager \<Rightarrow> result" where
  "hideTM env newApp animation s =
     (if \<not> isShown s \<or> isTransitioning s then Inr s
      else (let s1 = s\<lparr>isTransitioning := True\<rparr>;
                s2 = emit (map (\<lambda>(t, e). RemoveEventListener t e) listeners) s1;
                newApp' = (case newApp of
                             Some a \<Rightarrow> Some a
                           | None \<Rightarrow> (case getActiveWindow env of
                                        Some a \<Rightarrow> Some a
                                      | None \<Rightarrow> getHomescreen env));
                latestStack = snapshot env;
                newStackPosition = (case newApp' of
                                      Some a \<Rightarrow> indexOf latestStack a
                                    | None \<Rightarrow> - 1);
                detail = (if newStackPosition \<noteq> - 1 then Some (nat newStackPosition) else None);
                s3 = emit [ClassRemove ''screen'' ''cards-view''] s2;
                s4 = publish ''cardviewclosed'' detail s3
            in case newApp' of
                 None \<Rightarrow> Inl (TypeError, s4)
               | Some a \<Rightarrow>
                   (let s5 = (if isHomescreen a
                              then emit [ClassAdd ''task-manager'' ''to-home'',
                                         AppOpen a ''home-from-cardview''] s4
                              else emit [AppOpen a (case animation of
                                                      None \<Rightarrow> ''from-cardview''
                                                    | Some n \<Rightarrow> if n = [] then ''from-cardview'' else n)] s4)
                    in Inr (s5\<lparr>pending := pending s5 @
                                   [(EventSafety (instanceID a) ''_opened'' 1000, HideFinish)]\<rparr>))))"

text \<open>The loop of the callback that \<^verbatim>\<open>hide\<close> gives to \<^verbatim>\<open>eventSafety\<close>.\<close>

fun leaveAll :: "AppWindow list \<Rightarrow> TaskManager \<Rightarrow> result" where
  "leaveAll [] s = Inr s"
| "leaveAll (a # as) s =
     (case removeApp a s of
        Inl e \<Rightarrow> Inl e
      | Inr s' \<Rightarrow> leaveAll as (emit [LeaveTaskManager a] s'))"

definition hideFinish :: "TaskManager \<Rightarrow> result" where
  "hideFinish s =
     (let s1 = setActive False s;
          s2 = emit [ClassRemove ''task-manager'' ''to-home'',
                     ClassRemove ''task-manager'' ''filtered''] s1
      in leaveAll (stack s2) s2)"

subsection \<open>Actions on a card\<close>

text \<open>
  \<^verbatim>\<open>cardAction(card, actionName)\<close>. A \<^verbatim>\<open>then\<close> callback is registered
  with what its promise waits for, and runs later, by \<open>resume\<close>.
\<close>

definition cardAction :: "Env \<Rightarrow> Card \<Rightarrow> string \<Rightarrow> TaskManager \<Rightarrow> TaskManager" where
  "cardAction env crd actionName s =
     (if actionName = ''close'' then
        (let index = indexOf (stack s) (app crd)
         in if length (stack s) > 1 \<and> index = int (length (stack s)) - 1
            then (let (w, s1) = panToApp env
                                  (arrayAt (stack s) (Num (of_nat (length (stack s)) - 2))) False s
                  in s1\<lparr>pending := pending s1 @ [(w, KillApp (app crd))]\<rparr>)
            else emit [Kill (app crd)] s)
      else if actionName = ''favorite'' then emit [ConsoleLog crd] s
      else if actionName = ''select'' then
        (let (w, s1) = panToApp env (Some (app crd)) False s
         in s1\<lparr>pending := pending s1 @ [(w, HideApp (app crd))]\<rparr>)
      else s)"

subsection \<open>Running a registered callback\<close>

fun resume :: "Env \<Rightarrow> continuation \<Rightarrow> TaskManager \<Rightarrow> result" where
  "resume env ShowAttach s = showAttach env s"
| "resume env ShowFinish s = Inr (showFinish s)"
| "resume env HideFinish s = hideFinish s"
| "resume env (KillApp a) s = Inr (emit [Kill a] s)"
| "resume env (HideApp a) s = hideTM env (Some a) None s"

text \<open>
  The browser runs the \<open>i\<close>-th registered callback, when what it waits for has
  happened; the callback leaves the list.
\<close>

definition deliver :: "Env \<Rightarrow> nat \<Rightarrow> TaskManager \<Rightarrow> result" where
  "deliver env i s =
     (if i < length (pending s)
      then resume env (snd (pending s ! i))
             (s\<lparr>pending := take i (pending s) @ drop (Suc i) (pending s)\<rparr>)
      else Inr s)"

section \<open>Vocabulary of the statements\<close>

subsection \<open>Well-formed states\<close>

text \<open>
  The invariant of the card collection: a window has one entry in the map, two
  cards never share an element, the element of every card is a child of the
  list, and it was allocated before \<open>nextElement\<close>. The constructor's state has
  it and every method keeps it (\<open>wf_newTaskManager\<close>, \<open>wf_deliver\<close> and the
  lemmas before it).
\<close>

definition wfCards :: "(AppWindow \<times> Card) list \<Rightarrow> nat list \<Rightarrow> nat \<Rightarrow> bool" where
  "wfCards m cl n =
     (distinct (map fst m) \<and> distinct (map (element \<circ> snd) m) \<and>
      (\<forall>p \<in> set m. element (snd p) \<in> set cl \<and> element (snd p) < n))"

definition wf :: "TaskManager \<Rightarrow> bool" where
  "wf s = wfCards (appToCardMap s) (cardsList s) (nextElement s)"

text \<open>Every window of the list has a card in the map.\<close>

definition hasCards :: "AppWindow list \<Rightarrow> (AppWindow \<times> Card) list \<Rightarrow> bool" where
  "hasCards as m = (\<forall>a \<in> set as. map_of m a \<noteq> None)"

subsection \<open>Results\<close>

definition returned :: "result \<Rightarrow> bool" where
  "returned r = (case r of Inl _ \<Rightarrow> False | Inr _ \<Rightarrow> True)"

text \<open>The state a call leaves, whether it returned or threw.\<close>

definition stateOf :: "result \<Rightarrow> TaskManager" where
  "stateOf r = (case r of Inl (e, s) \<Rightarrow> s | Inr s \<Rightarrow> s)"

subsection \<open>Reading the effects\<close>

text \<open>
  What has been emitted between the state \<open>s\<close> and a later state \<open>s'\<close>; the
  statements that use it also say that \<open>effects s'\<close> extends \<open>effects s\<close>.
\<close>

definition effectsSince :: "TaskManager \<Rightarrow> TaskManager \<Rightarrow> effect list" where
  "effectsSince s s' = drop (length (effects s)) (effects s')"

text \<open>The windows told \<^verbatim>\<open>enterTaskManager()\<close>, in order.\<close>

fun entered :: "effect list \<Rightarrow> AppWindow list" where
  "entered [] = []"
| "entered (EnterTaskManager a # es) = a # entered es"
| "entered (e # es) = entered es"

text \<open>The windows told \<^verbatim>\<open>leaveTaskManager()\<close>, in order.\<close>

fun left :: "effect list \<Rightarrow> AppWindow list" where
  "left [] = []"
| "left (LeaveTaskManager a # es) = a # left es"
| "left (e # es) = left es"

text \<open>The cards made by \<^verbatim>\<open>new Card\<close>, in order.\<close>

fun created :: "effect list \<Rightarrow> Card list" where
  "created [] = []"
| "created (NewCard c # es) = c # created es"
| "created (e # es) = created es"

text \<open>The calls of \<^verbatim>\<open>card.translate\<close>: the card and its offset.\<close>

fun translates :: "effect list \<Rightarrow> (Card \<times> rat) list" where
  "translates [] = []"
| "translates (Translate c x # es) = (c, x) # translates es"
| "translates (e # es) = translates es"

text \<open>The widths given to the list.\<close>

fun widths :: "effect list \<Rightarrow> rat list" where
  "widths [] = []"
| "widths (SetListWidth x # es) = x # widths es"
| "widths (e # es) = widths es"

text \<open>The types of the events published.\<close>

fun published :: "effect list \<Rightarrow> string list" where
  "published [] = []"
| "published (Publish t d # es) = t # published es"
| "published (e # es) = published es"

fun isPublish :: "effect \<Rightarrow> bool" where
  "isPublish (Publish t d) = True"
| "isPublish _ = False"

fun isAriaWrite :: "effect \<Rightarrow> bool" where
  "isAriaWrite (SetAttribute c n v) = True"
| "isAriaWrite _ = False"

fun isAddition :: "effect \<Rightarrow> bool" where
  "isAddition (NewCard c) = True"
| "isAddition (AppendChild n) = True"
| "isAddition (EnterTaskManager a) = True"
| "isAddition _ = False"

fun isRemoval :: "effect \<Rightarrow> bool" where
  "isRemoval (RemoveChild n) = True"
| "isRemoval _ = False"

text \<open>
  The effects on the card collection and on the windows' lifecycle: a card made,
  a child appended or removed, a window told it has entered or left.
\<close>

fun isLifecycle :: "effect \<Rightarrow> bool" where
  "isLifecycle (NewCard c) = True"
| "isLifecycle (AppendChild n) = True"
| "isLifecycle (RemoveChild n) = True"
| "isLifecycle (EnterTaskManager a) = True"
| "isLifecycle (LeaveTaskManager a) = True"
| "isLifecycle _ = False"

subsection \<open>The parts of a pass\<close>

text \<open>The stack that \<^verbatim>\<open>updateStack\<close> assigns: the snapshot, filtered or not.\<close>

definition latestStack :: "Env \<Rightarrow> TaskManager \<Rightarrow> AppWindow list" where
  "latestStack env s =
     (if browserOnly s then filter browserFilter (snapshot env) else snapshot env)"

text \<open>What \<^verbatim>\<open>updateStack\<close> writes before its loops.\<close>

definition stackHeader :: "TaskManager \<Rightarrow> effect list" where
  "stackHeader s =
     [SetL10n (if browserOnly s then ''no-recent-browser-windows'' else ''no-recent-app-windows''),
      ClassToggle ''task-manager'' ''filtered'' (browserOnly s)]"

text \<open>What the loop of \<^verbatim>\<open>updateLayout\<close> writes when every window has its card.\<close>

definition layoutWrites :: "rat \<Rightarrow> rat \<Rightarrow> nat \<Rightarrow> AppWindow list \<Rightarrow> (AppWindow \<times> Card) list \<Rightarrow> effect list" where
  "layoutWrites cw margins i as m =
     map (\<lambda>(k, a). Translate (the (map_of m a)) (margins / 2 + (cw + CARD_GUTTER) * of_nat k))
       (List.enumerate i as)"

text \<open>\<^verbatim>\<open>contentWidth\<close> of \<^verbatim>\<open>updateLayout\<close>, for a viewport width and a count.\<close>

definition contentWidth :: "nat \<Rightarrow> nat \<Rightarrow> rat" where
  "contentWidth w n =
     (of_nat w - of_nat w / 2) +
       max (of_nat w / 2) (of_nat w / 2 * of_nat n + CARD_GUTTER * (of_nat n - 1))"

subsection \<open>Example states\<close>

text \<open>
  Three application windows (the second a browser, the third with the role
  \<^verbatim>\<open>search\<close>), the homescreen, and shown task managers holding cards for one,
  two and three of the windows, laid out for a viewport of 320 by 480.
\<close>

definition appA :: AppWindow where
  "appA = \<lparr>instanceID = 1, isBrowser = False, manifest = None, isHomescreen = False\<rparr>"

definition appB :: AppWindow where
  "appB = \<lparr>instanceID = 2, isBrowser = True, manifest = None, isHomescreen = False\<rparr>"

definition appC :: AppWindow where
  "appC = \<lparr>instanceID = 3, isBrowser = False, manifest = Some \<lparr>role = Some ''search''\<rparr>,
            isHomescreen = False\<rparr>"

definition appHome :: AppWindow where
  "appHome = \<lparr>instanceID = 0, isBrowser = False, manifest = None, isHomescreen = True\<rparr>"

definition cardA :: Card where
  "cardA = \<lparr>element = 0, app = appA, screenshotsDisabled = False\<rparr>"

definition cardB :: Card where
  "cardB = \<lparr>element = 1, app = appB, screenshotsDisabled = False\<rparr>"

definition cardC :: Card where
  "cardC = \<lparr>element = 2, app = appC, screenshotsDisabled = False\<rparr>"

definition tmA :: TaskManager where
  "tmA = \<lparr>appToCardMap = [(appA, cardA)], elementToCardMap = [(0, cardA)], stack = [appA],
          currentCard = Ref cardA, active = True, disableScreenshots = False,
          isTransitioning = False, browserOnly = False, cardWidth = Num 160,
          cardHeight = Num 240, cardsList = [0], nextElement = 1, pending = [],
          effects = []\<rparr>"

definition tmAB :: TaskManager where
  "tmAB = \<lparr>appToCardMap = [(appA, cardA), (appB, cardB)],
           elementToCardMap = [(0, cardA), (1, cardB)], stack = [appA, appB],
           currentCard = Ref cardA, active = True, disableScreenshots = False,
           isTransitioning = False, browserOnly = False, cardWidth = Num 160,
           cardHeight = Num 240, cardsList = [0, 1], nextElement = 2, pending = [],
           effects = []\<rparr>"

definition tmABC :: TaskManager where
  "tmABC = \<lparr>appToCardMap = [(appA, cardA), (appB, cardB), (appC, cardC)],
            elementToCardMap = [(0, cardA), (1, cardB), (2, cardC)],
            stack = [appA, appB, appC],
            currentCard = Ref cardA, active = True, disableScreenshots = False,
            isTransitioning = False, browserOnly = False, cardWidth = Num 160,
            cardHeight = Num 240, cardsList = [0, 1, 2], nextElement = 3, pending = [],
            effects = []\<rparr>"

text \<open>
  Environments: the stack manager holding the second and third window; the same
  scrolled to 200 and to -160; and one with no window at all.
\<close>

definition envBC :: Env where
  "envBC = \<lparr>snapshot = [appB, appC], getCurrent = Some appC, innerWidth = 320,
            innerHeight = 480, scrollLeft = 0, getActiveWindow = Some appC,
            getHomescreen = Some appHome\<rparr>"

definition envScrolled :: Env where
  "envScrolled = envBC\<lparr>scrollLeft := 200\<rparr>"

definition envNegative :: Env where
  "envNegative = envBC\<lparr>scrollLeft := - 160\<rparr>"

definition envNone :: Env where
  "envNone = \<lparr>snapshot = [], getCurrent = None, innerWidth = 320,
            innerHeight = 480, scrollLeft = 0, getActiveWindow = None,
            getHomescreen = None\<rparr>"

section \<open>Proofs\<close>

subsection \<open>Frames of the loops\<close>

lemma emit_emit: "emit f (emit g s) = emit (g @ f) s"
  by (simp add: emit_def)

lemma emit_fields [simp]:
  "appToCardMap (emit f s) = appToCardMap s"
  "elementToCardMap (emit f s) = elementToCardMap s"
  "stack (emit f s) = stack s"
  "currentCard (emit f s) = currentCard s"
  "active (emit f s) = active s"
  "disableScreenshots (emit f s) = disableScreenshots s"
  "isTransitioning (emit f s) = isTransitioning s"
  "browserOnly (emit f s) = browserOnly s"
  "cardWidth (emit f s) = cardWidth s"
  "cardHeight (emit f s) = cardHeight s"
  "cardsList (emit f s) = cardsList s"
  "nextElement (emit f s) = nextElement s"
  "pending (emit f s) = pending s"
  "effects (emit f s) = effects s @ f"
  by (simp_all add: emit_def)

lemma translateCards_ok:
  "hasCards as (appToCardMap s) \<Longrightarrow>
   translateCards cw mg i as s = Inr (emit (layoutWrites cw mg i as (appToCardMap s)) s)"
proof (induction as arbitrary: i s)
  case Nil
  then show ?case by (simp add: layoutWrites_def emit_def)
next
  case (Cons a as)
  from Cons.prems obtain c where c: "map_of (appToCardMap s) a = Some c"
    by (auto simp: hasCards_def)
  have h: "hasCards as (appToCardMap (emit [Translate c (mg / 2 + (cw + CARD_GUTTER) * of_nat i)] s))"
    using Cons.prems by (simp add: hasCards_def)
  show ?case
    using Cons.IH[OF h, of "Suc i"] c
    by (simp add: emit_emit layoutWrites_def Let_def)
qed

lemma setAria_ok:
  "hasCards as (appToCardMap s) \<Longrightarrow>
   \<exists>f. setAria cur i as s = Inr (emit f s) \<and> (\<forall>e \<in> set f. isAriaWrite e) \<and> (as = [] \<longrightarrow> f = [])"
proof (induction as arbitrary: i s)
  case Nil
  show ?case by (rule exI[of _ "[]"]) (simp add: emit_def)
next
  case (Cons a as)
  from Cons.prems obtain c where c: "map_of (appToCardMap s) a = Some c"
    by (auto simp: hasCards_def)
  let ?w = "[SetAttribute c ''aria-hidden'' (BoolAttr (Ref c \<noteq> cur)),
             SetAttribute c ''aria-setsize'' (NumAttr (length (stack s))),
             SetAttribute c ''aria-posinset'' (NumAttr (i + 1))]"
  have h: "hasCards as (appToCardMap (emit ?w s))"
    using Cons.prems by (simp add: hasCards_def)
  from Cons.IH[OF h, of "Suc i"] obtain f where
    f: "setAria cur (Suc i) as (emit ?w s) = Inr (emit f (emit ?w s))" "\<forall>e \<in> set f. isAriaWrite e"
    by blast
  show ?case
    by (rule exI[of _ "?w @ f"]) (use c f in \<open>simp add: emit_emit\<close>)
qed

lemma updateScrollPosition_ok:
  assumes "hasCards (stack s) (appToCardMap s)"
  shows "\<exists>f. updateScrollPosition env s =
               Inr (s\<lparr>currentCard := cardAtScroll env s, effects := effects s @ f\<rparr>) \<and>
             (\<forall>e \<in> set f. isAriaWrite e) \<and>
             (currentCard s = cardAtScroll env s \<longrightarrow> f = [])"
proof (cases "currentCard s = cardAtScroll env s")
  case True
  show ?thesis
    by (rule exI[of _ "[]"]) (use True in \<open>simp add: updateScrollPosition_def\<close>)
next
  case False
  let ?s1 = "s\<lparr>currentCard := cardAtScroll env s\<rparr>"
  have "hasCards (stack ?s1) (appToCardMap ?s1)" using assms by simp
  from setAria_ok[of "stack ?s1" ?s1 "cardAtScroll env s" 0] this obtain f where
    f: "setAria (cardAtScroll env s) 0 (stack s) ?s1 = Inr (emit f ?s1)" "\<forall>e \<in> set f. isAriaWrite e"
    by auto
  show ?thesis
    by (rule exI[of _ f]) (use False f in \<open>simp add: updateScrollPosition_def emit_def\<close>)
qed

lemma updateLayout_ok:
  assumes "hasCards (stack s) (appToCardMap s)"
  shows "\<exists>f. updateLayout env s =
               Inr (s\<lparr>cardWidth := Num (of_nat (innerWidth env) / 2),
                      cardHeight := Num (of_nat (innerHeight env) / 2),
                      currentCard := cardAtScroll env (s\<lparr>cardWidth := Num (of_nat (innerWidth env) / 2)\<rparr>),
                      effects := effects s @
                        layoutWrites (of_nat (innerWidth env) / 2)
                          (of_nat (innerWidth env) - of_nat (innerWidth env) / 2) 0 (stack s) (appToCardMap s) @
                        [SetListWidth (contentWidth (innerWidth env) (length (stack s)))] @ f\<rparr>) \<and>
             (\<forall>e \<in> set f. isAriaWrite e) \<and>
             (currentCard s = cardAtScroll env (s\<lparr>cardWidth := Num (of_nat (innerWidth env) / 2)\<rparr>) \<longrightarrow> f = [])"
proof -
  let ?cw = "of_nat (innerWidth env) / 2 :: rat"
  let ?mg = "of_nat (innerWidth env) - ?cw"
  let ?s1 = "s\<lparr>cardWidth := Num ?cw, cardHeight := Num (of_nat (innerHeight env) / 2)\<rparr>"
  let ?L = "layoutWrites ?cw ?mg 0 (stack s) (appToCardMap s)"
  let ?W = "SetListWidth (contentWidth (innerWidth env) (length (stack s)))"
  let ?s2 = "emit [?W] (emit ?L ?s1)"
  have t: "translateCards ?cw ?mg 0 (stack ?s1) ?s1 = Inr (emit ?L ?s1)"
    using translateCards_ok[of "stack ?s1" ?s1 ?cw ?mg 0] assms by simp
  have h2: "hasCards (stack ?s2) (appToCardMap ?s2)" using assms by (simp add: emit_def)
  have cc: "cardAtScroll env ?s2 = cardAtScroll env (s\<lparr>cardWidth := Num ?cw\<rparr>)"
    by (simp add: cardAtScroll_def getCurrentIndex_def emit_def)
  from updateScrollPosition_ok[OF h2, of env] obtain f where
    f: "updateScrollPosition env ?s2 = Inr (?s2\<lparr>currentCard := cardAtScroll env ?s2, effects := effects ?s2 @ f\<rparr>)"
       "\<forall>e \<in> set f. isAriaWrite e" "currentCard ?s2 = cardAtScroll env ?s2 \<longrightarrow> f = []"
    by blast
  have u: "updateLayout env s = updateScrollPosition env ?s2"
    using t by (simp add: updateLayout_def Let_def contentWidth_def)
  show ?thesis
    by (rule exI[of _ f]) (use f u cc in \<open>simp add: emit_def\<close>)
qed

subsection \<open>Removing and adding cards\<close>

lemma wfCards_delete:
  assumes "wfCards m cl n" "map_of m a = Some c"
  shows "wfCards (AList.delete a m) (remove1 (element c) cl) n"
proof -
  have mem: "(a, c) \<in> set m" using assms(2) by (rule map_of_SomeD)
  have d1: "distinct (map fst (AList.delete a m))"
    using assms(1) by (simp add: wfCards_def distinct_delete)
  have d2: "distinct (map (element \<circ> snd) (AList.delete a m))"
    using assms(1) unfolding wfCards_def AList.delete_eq by (simp add: distinct_map_filter)
  have "\<forall>p \<in> set (AList.delete a m). element (snd p) \<noteq> element c"
  proof
    fix p assume p: "p \<in> set (AList.delete a m)"
    then have pm: "p \<in> set m" and ne: "fst p \<noteq> a" by (auto simp: AList.delete_eq)
    have "inj_on (element \<circ> snd) (set m)"
      using assms(1) by (simp add: wfCards_def distinct_map)
    then show "element (snd p) \<noteq> element c"
      using pm mem ne by (auto simp: inj_on_def)
  qed
  then have "\<forall>p \<in> set (AList.delete a m). element (snd p) \<in> set (remove1 (element c) cl) \<and> element (snd p) < n"
    using assms(1) by (auto simp: wfCards_def AList.delete_eq)
  with d1 d2 show ?thesis by (simp add: wfCards_def)
qed

lemma removeApp_wf:
  assumes "wf s"
  shows "\<exists>e c f. removeApp a s =
           Inr (s\<lparr>appToCardMap := AList.delete a (appToCardMap s), elementToCardMap := e,
                  cardsList := c, effects := effects s @ f\<rparr>) \<and>
           wfCards (AList.delete a (appToCardMap s)) c (nextElement s) \<and>
           (\<forall>x \<in> set f. \<exists>n. x = RemoveChild n)"
proof (cases "map_of (appToCardMap s) a")
  case None
  then have "a \<notin> fst ` set (appToCardMap s)" by (simp add: map_of_eq_None_iff)
  then have "AList.delete a (appToCardMap s) = appToCardMap s" by simp
  then show ?thesis using None assms
    apply (simp add: removeApp_def wf_def)
    apply (rule exI[of _ "elementToCardMap s"], rule exI[of _ "cardsList s"], rule exI[of _ "[]"])
    apply simp
    done
next
  case (Some c)
  then have "(a, c) \<in> set (appToCardMap s)" by (rule map_of_SomeD)
  then have "element c \<in> set (cardsList s)" using assms by (auto simp: wf_def wfCards_def)
  then show ?thesis using Some wfCards_delete[OF assms[unfolded wf_def] Some]
    apply (simp add: removeApp_def emit_def)
    apply (rule exI[of _ "AList.delete (element c) (elementToCardMap s)"], rule exI[of _ "remove1 (element c) (cardsList s)"], rule exI[of _ "[RemoveChild (element c)]"])
    apply simp
    done
qed

lemma removeMissing_wf:
  "wf s \<Longrightarrow>
   \<exists>e c f. removeMissing latest ks s =
             Inr (s\<lparr>appToCardMap := filter (\<lambda>p. fst p \<in> set latest \<or> fst p \<notin> set ks) (appToCardMap s),
                    elementToCardMap := e, cardsList := c, effects := effects s @ f\<rparr>) \<and>
           wfCards (filter (\<lambda>p. fst p \<in> set latest \<or> fst p \<notin> set ks) (appToCardMap s)) c (nextElement s) \<and>
           (\<forall>x \<in> set f. isRemoval x)"
proof (induction ks arbitrary: s)
  case Nil
  show ?case
    apply (rule exI[of _ "elementToCardMap s"], rule exI[of _ "cardsList s"], rule exI[of _ "[]"])
    using Nil by (simp add: wf_def)
next
  case (Cons a ks)
  show ?case
  proof (cases "a \<in> set latest")
    case True
    have eq: "filter (\<lambda>p. fst p \<in> set latest \<or> fst p \<notin> set (a # ks)) (appToCardMap s) =
              filter (\<lambda>p. fst p \<in> set latest \<or> fst p \<notin> set ks) (appToCardMap s)"
      using True by (intro filter_cong) auto
    have rm: "removeMissing latest (a # ks) s = removeMissing latest ks s"
      using True by simp
    show ?thesis using Cons.IH[OF Cons.prems] unfolding eq rm .
  next
    case False
    from removeApp_wf[OF Cons.prems, of a] obtain e1 c1 f1 where
      r: "removeApp a s = Inr (s\<lparr>appToCardMap := AList.delete a (appToCardMap s), elementToCardMap := e1,
                  cardsList := c1, effects := effects s @ f1\<rparr>)"
      and w: "wfCards (AList.delete a (appToCardMap s)) c1 (nextElement s)"
      and f1: "\<forall>x \<in> set f1. \<exists>n. x = RemoveChild n"
      by (elim exE conjE) (rule that)
    let ?s1 = "s\<lparr>appToCardMap := AList.delete a (appToCardMap s), elementToCardMap := e1,
                  cardsList := c1, effects := effects s @ f1\<rparr>"
    have w1: "wf ?s1" using w by (simp add: wf_def)
    have eq: "filter (\<lambda>p. fst p \<in> set latest \<or> fst p \<notin> set ks) (AList.delete a (appToCardMap s)) =
              filter (\<lambda>p. fst p \<in> set latest \<or> fst p \<notin> set (a # ks)) (appToCardMap s)"
      using False unfolding AList.delete_eq filter_filter by (intro filter_cong) auto
    from Cons.IH[OF w1] obtain e c f where
      i: "removeMissing latest ks ?s1 =
            Inr (?s1\<lparr>appToCardMap := filter (\<lambda>p. fst p \<in> set latest \<or> fst p \<notin> set ks) (appToCardMap ?s1),
                    elementToCardMap := e, cardsList := c, effects := effects ?s1 @ f\<rparr>)"
      and iw: "wfCards (filter (\<lambda>p. fst p \<in> set latest \<or> fst p \<notin> set ks) (appToCardMap ?s1)) c (nextElement ?s1)"
      and fi: "\<forall>x \<in> set f. isRemoval x"
      by blast
    have f1': "\<forall>x \<in> set f1. isRemoval x" using f1 by auto
    show ?thesis
      apply (rule exI[of _ e], rule exI[of _ c], rule exI[of _ "f1 @ f"])
      using False r i iw fi f1' eq by (auto simp: ball_Un)
  qed
qed

lemma update_fresh: "k \<notin> fst ` set al \<Longrightarrow> AList.update k v al = al @ [(k, v)]"
  by (induction al) auto

lemma wfCards_add:
  assumes "wfCards m cl n" "map_of m a = None"
  shows "wfCards (AList.update a \<lparr>element = n, app = a, screenshotsDisabled = d\<rparr> m)
           (removeAll n cl @ [n]) (Suc n)"
proof -
  have fresh: "a \<notin> fst ` set m" using assms(2) by (simp add: map_of_eq_None_iff)
  have lt: "\<forall>p \<in> set m. element (snd p) < n" using assms(1) by (simp add: wfCards_def)
  then have ne: "\<forall>p \<in> set m. element (snd p) \<noteq> n" by auto
  have "n \<notin> (element \<circ> snd) ` set m" using ne by auto
  then show ?thesis
    using assms(1) fresh lt ne
    by (auto simp: wfCards_def update_fresh less_Suc_eq)
qed

lemma entered_append: "entered (xs @ ys) = entered xs @ entered ys"
  by (induction xs rule: entered.induct) auto

lemma created_append: "created (xs @ ys) = created xs @ created ys"
  by (induction xs rule: created.induct) auto

lemma addMissing_wf:
  "wf s \<Longrightarrow>
   \<exists>m e c n f. addMissing as s =
       s\<lparr>appToCardMap := m, elementToCardMap := e, cardsList := c, nextElement := n,
         effects := effects s @ f\<rparr> \<and>
     wfCards m c n \<and>
     fst ` set m = fst ` set (appToCardMap s) \<union> set as \<and>
     (\<forall>b x. map_of (appToCardMap s) b = Some x \<longrightarrow> map_of m b = Some x) \<and>
     (\<forall>x \<in> set f. isAddition x) \<and>
     map app (created f) = entered f \<and>
     distinct (entered f) \<and>
     set (entered f) = {b \<in> set as. map_of (appToCardMap s) b = None} \<and>
     (\<forall>k \<in> set (created f). map_of m (app k) = Some k \<and> map_of (appToCardMap s) (app k) = None)"
proof (induction as arbitrary: s)
  case Nil
  show ?case
    apply (rule exI[of _ "appToCardMap s"], rule exI[of _ "elementToCardMap s"],
           rule exI[of _ "cardsList s"], rule exI[of _ "nextElement s"], rule exI[of _ "[]"])
    using Nil by (simp add: wf_def)
next
  case (Cons a as)
  show ?case
  proof (cases "map_of (appToCardMap s) a")
    case (Some k)
    have am: "addMissing (a # as) s = addMissing as s" using Some by simp
    from Cons.IH[OF Cons.prems] obtain m e c n f where
      i: "addMissing as s = s\<lparr>appToCardMap := m, elementToCardMap := e, cardsList := c,
            nextElement := n, effects := effects s @ f\<rparr>"
         "wfCards m c n" "fst ` set m = fst ` set (appToCardMap s) \<union> set as"
         "\<forall>b x. map_of (appToCardMap s) b = Some x \<longrightarrow> map_of m b = Some x"
         "\<forall>x \<in> set f. isAddition x" "map app (created f) = entered f" "distinct (entered f)"
         "set (entered f) = {b \<in> set as. map_of (appToCardMap s) b = None}"
         "\<forall>k \<in> set (created f). map_of m (app k) = Some k \<and> map_of (appToCardMap s) (app k) = None"
      by (elim exE conjE) (rule that)
    have ain: "a \<in> fst ` set (appToCardMap s)"
      using Some by (metis map_of_eq_None_iff option.distinct(1))
    show ?thesis
      unfolding am
      apply (rule exI[of _ m], rule exI[of _ e], rule exI[of _ c], rule exI[of _ n], rule exI[of _ f])
      apply (intro conjI)
      subgoal using i(1) .
      subgoal using i(2) .
      subgoal using i(3) ain by auto
      subgoal using i(4) .
      subgoal using i(5) .
      subgoal using i(6) .
      subgoal using i(7) .
      subgoal using i(8) Some by auto
      subgoal using i(9) .
      done
  next
    case None
    let ?k = "\<lparr>element = nextElement s, app = a, screenshotsDisabled = disableScreenshots s\<rparr>"
    let ?m1 = "AList.update a ?k (appToCardMap s)"
    let ?s1 = "s\<lparr>appToCardMap := ?m1,
                  elementToCardMap := AList.update (nextElement s) ?k (elementToCardMap s),
                  cardsList := removeAll (nextElement s) (cardsList s) @ [nextElement s],
                  nextElement := Suc (nextElement s),
                  effects := effects s @ [NewCard ?k, AppendChild (nextElement s), EnterTaskManager a]\<rparr>"
    have s1: "emit [EnterTaskManager a] (snd (addApp a s)) = ?s1"
      by (simp add: addApp_def emit_def Let_def)
    have am: "addMissing (a # as) s = addMissing as ?s1" using None s1 by simp
    have w1: "wf ?s1"
      using wfCards_add[OF Cons.prems[unfolded wf_def] None, of "disableScreenshots s"]
      by (simp add: wf_def)
    from Cons.IH[OF w1] obtain m e c n f where
      i: "addMissing as ?s1 = ?s1\<lparr>appToCardMap := m, elementToCardMap := e, cardsList := c,
            nextElement := n, effects := effects ?s1 @ f\<rparr>"
         "wfCards m c n" "fst ` set m = fst ` set (appToCardMap ?s1) \<union> set as"
         "\<forall>b x. map_of (appToCardMap ?s1) b = Some x \<longrightarrow> map_of m b = Some x"
         "\<forall>x \<in> set f. isAddition x" "map app (created f) = entered f" "distinct (entered f)"
         "set (entered f) = {b \<in> set as. map_of (appToCardMap ?s1) b = None}"
         "\<forall>k \<in> set (created f). map_of m (app k) = Some k \<and> map_of (appToCardMap ?s1) (app k) = None"
      by (elim exE conjE) (rule that)
    have m1: "map_of ?m1 = (map_of (appToCardMap s))(a \<mapsto> ?k)" by (rule update_conv')
    have keys: "fst ` set ?m1 = {a} \<union> fst ` set (appToCardMap s)" by (rule dom_update)
    have pres: "\<forall>b x. map_of (appToCardMap s) b = Some x \<longrightarrow> map_of m b = Some x"
    proof (intro allI impI)
      fix b x assume b: "map_of (appToCardMap s) b = Some x"
      then have "b \<noteq> a" using None by auto
      then have "map_of ?m1 b = Some x" using b by (simp add: m1)
      then show "map_of m b = Some x" using i(4) by simp
    qed
    have ent: "set (entered f) = {b \<in> set as. b \<noteq> a \<and> map_of (appToCardMap s) b = None}"
      using i(8) by (auto simp: m1)
    have mk: "map_of m a = Some ?k" using i(4) by (simp add: m1)
    show ?thesis
      unfolding am
      apply (rule exI[of _ m], rule exI[of _ e], rule exI[of _ c], rule exI[of _ n],
             rule exI[of _ "[NewCard ?k, AppendChild (nextElement s), EnterTaskManager a] @ f"])
      apply (intro conjI)
      subgoal using i(1) by simp
      subgoal using i(2) .
      subgoal using i(3) keys by auto
      subgoal using pres .
      subgoal using i(5) by simp
      subgoal using i(6) by simp
      subgoal using i(7) ent by simp
      subgoal using ent None by auto
      subgoal using i(9) mk None by (auto simp: m1 split: if_splits)
      done
  qed
qed

subsection \<open>A pass of the reconciliation\<close>

lemma map_of_filter_key:
  "map_of (filter (\<lambda>p. P (fst p)) m) b = (if P b then map_of m b else None)"
  by (induction m) auto

lemma removeMissing_noop:
  "set ks \<subseteq> set latest \<Longrightarrow> removeMissing latest ks s = Inr s"
  by (induction ks arbitrary: s) auto

lemma addMissing_noop:
  "hasCards as (appToCardMap s) \<Longrightarrow> addMissing as s = s"
  by (induction as arbitrary: s) (auto simp: hasCards_def)

lemma hasCards_keys: "hasCards as m = (set as \<subseteq> fst ` set m)"
  by (auto simp: hasCards_def map_of_eq_None_iff)

lemma updateStack_run:
  assumes w: "wf s"
  shows "\<exists>m e c n fr fa fx.
     updateStack env s =
       Inr (s\<lparr>appToCardMap := m, elementToCardMap := e, stack := latestStack env s,
              currentCard := cardAtScroll env
                (s\<lparr>appToCardMap := m, stack := latestStack env s,
                   cardWidth := Num (of_nat (innerWidth env) / 2)\<rparr>),
              cardWidth := Num (of_nat (innerWidth env) / 2),
              cardHeight := Num (of_nat (innerHeight env) / 2),
              cardsList := c, nextElement := n,
              effects := effects s @ stackHeader s @ fr @ fa @
                layoutWrites (of_nat (innerWidth env) / 2)
                  (of_nat (innerWidth env) - of_nat (innerWidth env) / 2) 0 (latestStack env s) m @
                [SetListWidth (contentWidth (innerWidth env) (length (latestStack env s)))] @ fx\<rparr>) \<and>
     wfCards m c n \<and>
     fst ` set m = set (latestStack env s) \<and>
     (\<forall>b \<in> set (latestStack env s). \<forall>x. map_of (appToCardMap s) b = Some x \<longrightarrow> map_of m b = Some x) \<and>
     (\<forall>x \<in> set fr. isRemoval x) \<and>
     (\<forall>x \<in> set fa. isAddition x) \<and>
     map app (created fa) = entered fa \<and>
     distinct (entered fa) \<and>
     set (entered fa) = {b \<in> set (latestStack env s). map_of (appToCardMap s) b = None} \<and>
     (\<forall>k \<in> set (created fa). map_of m (app k) = Some k) \<and>
     (\<forall>x \<in> set fx. isAriaWrite x)"
proof -
  let ?st = "latestStack env s"
  let ?s3 = "s\<lparr>stack := ?st, effects := effects s @ stackHeader s\<rparr>"
  let ?m4 = "filter (\<lambda>p. fst p \<in> set ?st \<or> fst p \<notin> set (map fst (appToCardMap s))) (appToCardMap ?s3)"
  have w3: "wf ?s3" using w by (simp add: wf_def)
  from removeMissing_wf[OF w3, of ?st "map fst (appToCardMap s)"] obtain e4 c4 fr where
    r: "removeMissing ?st (map fst (appToCardMap s)) ?s3 =
          Inr (?s3\<lparr>appToCardMap := ?m4, elementToCardMap := e4, cardsList := c4,
                  effects := effects ?s3 @ fr\<rparr>)"
    and w4: "wfCards ?m4 c4 (nextElement ?s3)"
    and fr: "\<forall>x \<in> set fr. isRemoval x"
    by (elim exE conjE) (rule that)
  let ?s4 = "?s3\<lparr>appToCardMap := ?m4, elementToCardMap := e4, cardsList := c4,
                  effects := effects ?s3 @ fr\<rparr>"
  have m4eq: "appToCardMap ?s4 = filter (\<lambda>p. fst p \<in> set ?st) (appToCardMap s)"
    by simp (intro filter_cong, auto)
  have m4: "\<And>b. map_of (appToCardMap ?s4) b = (if b \<in> set ?st then map_of (appToCardMap s) b else None)"
    unfolding m4eq by (rule map_of_filter_key)
  have k4: "fst ` set (appToCardMap ?s4) \<subseteq> set ?st" unfolding m4eq by auto
  have ws4: "wf ?s4" using w4 by (simp add: wf_def)
  from addMissing_wf[OF ws4, of ?st] obtain m e c n fa where
    a: "addMissing ?st ?s4 = ?s4\<lparr>appToCardMap := m, elementToCardMap := e, cardsList := c,
          nextElement := n, effects := effects ?s4 @ fa\<rparr>"
    and a2: "wfCards m c n"
    and a3: "fst ` set m = fst ` set (appToCardMap ?s4) \<union> set ?st"
    and a4: "\<forall>b x. map_of (appToCardMap ?s4) b = Some x \<longrightarrow> map_of m b = Some x"
    and a5: "\<forall>x \<in> set fa. isAddition x"
    and a6: "map app (created fa) = entered fa"
    and a7: "distinct (entered fa)"
    and a8: "set (entered fa) = {b \<in> set ?st. map_of (appToCardMap ?s4) b = None}"
    and a9: "\<forall>k \<in> set (created fa). map_of m (app k) = Some k \<and> map_of (appToCardMap ?s4) (app k) = None"
    by (elim exE conjE) (rule that)
  let ?s5 = "?s4\<lparr>appToCardMap := m, elementToCardMap := e, cardsList := c,
          nextElement := n, effects := effects ?s4 @ fa\<rparr>"
  have keys: "fst ` set m = set ?st" using a3 k4 by auto
  have h5: "hasCards (stack ?s5) (appToCardMap ?s5)" using keys by (simp add: hasCards_keys)
  from updateLayout_ok[OF h5, of env] obtain fx where
    l: "updateLayout env ?s5 =
               Inr (?s5\<lparr>cardWidth := Num (of_nat (innerWidth env) / 2),
                      cardHeight := Num (of_nat (innerHeight env) / 2),
                      currentCard := cardAtScroll env (?s5\<lparr>cardWidth := Num (of_nat (innerWidth env) / 2)\<rparr>),
                      effects := effects ?s5 @
                        layoutWrites (of_nat (innerWidth env) / 2)
                          (of_nat (innerWidth env) - of_nat (innerWidth env) / 2) 0 (stack ?s5) (appToCardMap ?s5) @
                        [SetListWidth (contentWidth (innerWidth env) (length (stack ?s5)))] @ fx\<rparr>)"
    and fx: "\<forall>e \<in> set fx. isAriaWrite e"
    by (elim exE conjE) (rule that)
  have u0: "updateStack env s =
      (case removeMissing ?st (map fst (appToCardMap s)) ?s3 of
         Inl e \<Rightarrow> Inl e
       | Inr s4 \<Rightarrow> updateLayout env (addMissing (stack s4) s4))"
    by (cases "browserOnly s")
       (simp_all add: updateStack_def latestStack_def stackHeader_def emit_def Let_def)
  have st4: "stack ?s4 = ?st" by simp
  have u: "updateStack env s = updateLayout env ?s5"
    unfolding u0 r sum.case st4 a ..
  have cc: "cardAtScroll env (?s5\<lparr>cardWidth := Num (of_nat (innerWidth env) / 2)\<rparr>) =
            cardAtScroll env (s\<lparr>appToCardMap := m, stack := ?st, cardWidth := Num (of_nat (innerWidth env) / 2)\<rparr>)"
    by (simp add: cardAtScroll_def getCurrentIndex_def)
  show ?thesis
    apply (rule exI[of _ m], rule exI[of _ e], rule exI[of _ c], rule exI[of _ n],
           rule exI[of _ fr], rule exI[of _ fa], rule exI[of _ fx])
    apply (intro conjI)
    subgoal unfolding u l cc by simp
    subgoal using a2 .
    subgoal using keys .
    subgoal using a4 unfolding m4 by auto
    subgoal using fr .
    subgoal using a5 .
    subgoal using a6 .
    subgoal using a7 .
    subgoal using a8 unfolding m4 by auto
    subgoal using a9 by blast
    subgoal using fx .
    done
qed

lemma entered_none: "\<forall>x \<in> set f. \<not> isAddition x \<Longrightarrow> entered f = []"
  by (induction f rule: entered.induct) auto

lemma created_none: "\<forall>x \<in> set f. \<not> isAddition x \<Longrightarrow> created f = []"
  by (induction f rule: created.induct) auto

lemma left_append: "left (xs @ ys) = left xs @ left ys"
  by (induction xs rule: left.induct) auto

lemma left_none: "\<forall>x \<in> set f. \<not> isLifecycle x \<or> isAddition x \<or> isRemoval x \<Longrightarrow> left f = []"
  by (induction f rule: left.induct) auto

lemma removal_not_addition: "isRemoval x \<Longrightarrow> \<not> isAddition x"
  by (cases x) auto

lemma aria_not_lifecycle: "isAriaWrite x \<Longrightarrow> \<not> isLifecycle x \<and> \<not> isAddition x \<and> \<not> isRemoval x"
  by (cases x) auto

lemma layoutWrites_plain:
  "x \<in> set (layoutWrites cw mg i as m) \<Longrightarrow> \<not> isLifecycle x \<and> \<not> isAddition x \<and> \<not> isRemoval x \<and> \<not> isAriaWrite x"
  by (auto simp: layoutWrites_def)

lemma stackHeader_plain:
  "x \<in> set (stackHeader s) \<Longrightarrow> \<not> isLifecycle x \<and> \<not> isAddition x \<and> \<not> isRemoval x \<and> \<not> isAriaWrite x"
  by (auto simp: stackHeader_def)

lemma layoutWrites_quiet:
  "entered (layoutWrites cw mg i as m) = []"
  "created (layoutWrites cw mg i as m) = []"
  "left (layoutWrites cw mg i as m) = []"
  by (auto intro!: entered_none created_none left_none dest: layoutWrites_plain)

text \<open>What a reconciliation pass tells the windows.\<close>

lemma updateStack_notifies:
  assumes w: "wf s"
  shows "\<exists>s'. updateStack env s = Inr s' \<and> wf s' \<and>
           stack s' = latestStack env s \<and>
           fst ` set (appToCardMap s') = set (latestStack env s) \<and>
           (\<forall>b \<in> set (latestStack env s). \<forall>x. map_of (appToCardMap s) b = Some x \<longrightarrow>
               map_of (appToCardMap s') b = Some x) \<and>
           map app (created (effectsSince s s')) = entered (effectsSince s s') \<and>
           distinct (entered (effectsSince s s')) \<and>
           set (entered (effectsSince s s')) =
             {b \<in> set (latestStack env s). map_of (appToCardMap s) b = None} \<and>
           (\<forall>k \<in> set (created (effectsSince s s')). map_of (appToCardMap s') (app k) = Some k) \<and>
           left (effectsSince s s') = [] \<and>
           effects s' = effects s @ effectsSince s s'"
proof -
  let ?st = "latestStack env s"
  let ?cw = "of_nat (innerWidth env) / 2 :: rat"
  from updateStack_run[OF w, of env] obtain m e c n fr fa fx where
    u: "updateStack env s =
       Inr (s\<lparr>appToCardMap := m, elementToCardMap := e, stack := ?st,
              currentCard := cardAtScroll env
                (s\<lparr>appToCardMap := m, stack := ?st, cardWidth := Num ?cw\<rparr>),
              cardWidth := Num ?cw,
              cardHeight := Num (of_nat (innerHeight env) / 2),
              cardsList := c, nextElement := n,
              effects := effects s @ stackHeader s @ fr @ fa @
                layoutWrites ?cw (of_nat (innerWidth env) - ?cw) 0 ?st m @
                [SetListWidth (contentWidth (innerWidth env) (length ?st))] @ fx\<rparr>)"
    and wm: "wfCards m c n"
    and keys: "fst ` set m = set ?st"
    and pres: "\<forall>b \<in> set ?st. \<forall>x. map_of (appToCardMap s) b = Some x \<longrightarrow> map_of m b = Some x"
    and fr: "\<forall>x \<in> set fr. isRemoval x"
    and fa: "\<forall>x \<in> set fa. isAddition x"
    and ce: "map app (created fa) = entered fa"
    and de: "distinct (entered fa)"
    and se: "set (entered fa) = {b \<in> set ?st. map_of (appToCardMap s) b = None}"
    and ck: "\<forall>k \<in> set (created fa). map_of m (app k) = Some k"
    and fx: "\<forall>x \<in> set fx. isAriaWrite x"
    by (elim exE conjE) (rule that)
  let ?L = "layoutWrites ?cw (of_nat (innerWidth env) - ?cw) 0 ?st m"
  let ?W = "SetListWidth (contentWidth (innerWidth env) (length ?st))"
  let ?es = "stackHeader s @ fr @ fa @ ?L @ [?W] @ fx"
  let ?s' = "s\<lparr>appToCardMap := m, elementToCardMap := e, stack := ?st,
              currentCard := cardAtScroll env
                (s\<lparr>appToCardMap := m, stack := ?st, cardWidth := Num ?cw\<rparr>),
              cardWidth := Num ?cw,
              cardHeight := Num (of_nat (innerHeight env) / 2),
              cardsList := c, nextElement := n,
              effects := effects s @ ?es\<rparr>"
  have es: "effectsSince s ?s' = ?es" by (simp add: effectsSince_def)
  have e1: "entered (stackHeader s) = []" "created (stackHeader s) = []" "left (stackHeader s) = []"
    by (simp_all add: stackHeader_def)
  have e2: "entered fr = []" "created fr = []" "left fr = []"
    using fr by (auto intro!: entered_none created_none left_none dest: removal_not_addition)
  have e3: "entered ?L = []" "created ?L = []" "left ?L = []"
    by (rule layoutWrites_quiet)+
  have e4: "entered fx = []" "created fx = []" "left fx = []"
    using fx by (auto intro!: entered_none created_none left_none dest: aria_not_lifecycle)
  have e5: "left fa = []" using fa by (auto intro!: left_none)
  have ent: "entered ?es = entered fa"
    by (simp only: entered_append e1 e2 e3 e4 entered.simps append.simps append_Nil2)
  have cre: "created ?es = created fa"
    by (simp only: created_append e1 e2 e3 e4 created.simps append.simps append_Nil2)
  have lef: "left ?es = []"
    by (simp only: left_append e1 e2 e3 e4 e5 left.simps append.simps append_Nil2)
  show ?thesis
    apply (rule exI[of _ ?s'])
    unfolding es ent cre lef
    apply (intro conjI)
    subgoal using u .
    subgoal using wm by (simp add: wf_def)
    subgoal by simp
    subgoal using keys by simp
    subgoal using pres by simp
    subgoal using ce .
    subgoal using de .
    subgoal using se .
    subgoal using ck by simp
    subgoal ..
    subgoal by simp
    done
qed

subsection \<open>C1: the keys are the snapshot\<close>

lemma wf_tmA: "wf tmA"
  by (simp add: wf_def wfCards_def tmA_def cardA_def)

lemmas example_defs = tmA_def envBC_def envNone_def appA_def appB_def appC_def appHome_def cardA_def

lemmas run_defs = updateStack_def updateLayout_def updateScrollPosition_def cardAtScroll_def
  getCurrentIndex_def removeApp_def addApp_def emit_def CARD_GUTTER_def Let_def

lemma updateStack_tmA_envNone:
  "updateStack envNone tmA =
     Inr (tmA\<lparr>appToCardMap := [], elementToCardMap := [], stack := [], currentCard := Undefined,
              cardsList := [],
              effects := [SetL10n ''no-recent-app-windows'',
                          ClassToggle ''task-manager'' ''filtered'' False,
                          RemoveChild 0, SetListWidth 320]\<rparr>)"
  by (simp add: run_defs example_defs)

text \<open>
  C1. After \<^verbatim>\<open>updateStack()\<close> the keys of \<^verbatim>\<open>appToCardMap\<close> are exactly the
  windows of the snapshot (of the filtered one when \<^verbatim>\<open>_browserOnly\<close> is set),
  each with one card record: the pass returns, the stack it leaves is the
  snapshot, the key set is the set of the stack, and no key is there twice.
\<close>

theorem updateStack_keys_are_snapshot:
  assumes "wf s"
  shows "\<exists>s'. updateStack env s = Inr s' \<and>
           stack s' = (if browserOnly s then filter browserFilter (snapshot env) else snapshot env) \<and>
           fst ` set (appToCardMap s') = set (stack s') \<and>
           distinct (map fst (appToCardMap s'))"
proof -
  from updateStack_notifies[OF assms, of env] obtain s' where
    "updateStack env s = Inr s'" "wf s'" "stack s' = latestStack env s"
    "fst ` set (appToCardMap s') = set (latestStack env s)"
    by (elim exE conjE) (rule that)
  then show ?thesis
    by (intro exI[of _ s']) (simp add: wf_def wfCards_def latestStack_def)
qed

theorem updateStack_keys_are_snapshot_witness:
  "wf tmA \<and>
   returned (updateStack envBC tmA) \<and>
   stack (stateOf (updateStack envBC tmA)) = [appB, appC] \<and>
   fst ` set (appToCardMap (stateOf (updateStack envBC tmA))) = {appB, appC}"
proof -
  from updateStack_keys_are_snapshot[OF wf_tmA, of envBC] obtain s' where
    s': "updateStack envBC tmA = Inr s'"
      "stack s' = (if browserOnly tmA then filter browserFilter (snapshot envBC) else snapshot envBC)"
      "fst ` set (appToCardMap s') = set (stack s')"
    by (elim exE conjE) (rule that)
  have "stack s' = [appB, appC]" using s'(2) by (simp add: tmA_def envBC_def)
  then show ?thesis using s' wf_tmA by (simp add: returned_def stateOf_def)
qed

subsection \<open>C3: who is told\<close>

lemma leaveAll_wf:
  "wf s \<Longrightarrow>
   \<exists>m e c f. leaveAll as s =
       Inr (s\<lparr>appToCardMap := m, elementToCardMap := e, cardsList := c,
              effects := effects s @ f\<rparr>) \<and>
     wfCards m c (nextElement s) \<and>
     left f = as \<and> entered f = [] \<and> created f = [] \<and>
     fst ` set m = fst ` set (appToCardMap s) - set as"
proof (induction as arbitrary: s)
  case Nil
  show ?case
    apply (rule exI[of _ "appToCardMap s"], rule exI[of _ "elementToCardMap s"],
           rule exI[of _ "cardsList s"], rule exI[of _ "[]"])
    using Nil by (simp add: wf_def)
next
  case (Cons a as)
  from removeApp_wf[OF Cons.prems, of a] obtain e1 c1 f1 where
    r: "removeApp a s = Inr (s\<lparr>appToCardMap := AList.delete a (appToCardMap s), elementToCardMap := e1,
                cardsList := c1, effects := effects s @ f1\<rparr>)"
    and w: "wfCards (AList.delete a (appToCardMap s)) c1 (nextElement s)"
    and f1: "\<forall>x \<in> set f1. \<exists>n. x = RemoveChild n"
    by (elim exE conjE) (rule that)
  let ?s1 = "s\<lparr>appToCardMap := AList.delete a (appToCardMap s), elementToCardMap := e1,
                cardsList := c1, effects := effects s @ f1 @ [LeaveTaskManager a]\<rparr>"
  have w1: "wf ?s1" using w by (simp add: wf_def)
  have la: "leaveAll (a # as) s = leaveAll as ?s1"
    using r by (simp add: emit_def)
  from Cons.IH[OF w1] obtain m e c f where
    i: "leaveAll as ?s1 = Inr (?s1\<lparr>appToCardMap := m, elementToCardMap := e, cardsList := c,
              effects := effects ?s1 @ f\<rparr>)"
       "wfCards m c (nextElement ?s1)" "left f = as" "entered f = []" "created f = []"
       "fst ` set m = fst ` set (appToCardMap ?s1) - set as"
    by (elim exE conjE) (rule that)
  have q: "\<forall>x \<in> set f1. \<not> isAddition x" "\<forall>x \<in> set f1. \<not> isLifecycle x \<or> isAddition x \<or> isRemoval x"
    using f1 by auto
  have f1q: "left f1 = []" "entered f1 = []" "created f1 = []"
    using q by (auto intro: left_none entered_none created_none)
  have dk: "fst ` set (AList.delete a (appToCardMap s)) = fst ` set (appToCardMap s) - {a}"
    using delete_keys[of a "appToCardMap s"] by (metis list.set_map set_removeAll)
  show ?case
    unfolding la
    apply (rule exI[of _ m], rule exI[of _ e], rule exI[of _ c],
           rule exI[of _ "f1 @ [LeaveTaskManager a] @ f"])
    apply (intro conjI)
    subgoal using i(1) by simp
    subgoal using i(2) by simp
    subgoal using i(3) by (simp add: left_append f1q)
    subgoal using i(4) by (simp add: entered_append f1q)
    subgoal using i(5) by (simp add: created_append f1q)
    subgoal using i(6) dk by auto
    done
qed

lemma wf_tmAB: "wf tmAB"
  by (simp add: wf_def wfCards_def tmAB_def cardA_def cardB_def appA_def appB_def)

lemma setActive_frame:
  "\<exists>f. setActive a s = s\<lparr>active := a, isTransitioning := (if active s = a then isTransitioning s else False),
                            effects := effects s @ f\<rparr> \<and>
       left f = [] \<and> entered f = [] \<and> created f = [] \<and> (\<forall>x \<in> set f. \<not> isLifecycle x)"
proof (cases "active s = a")
  case True
  show ?thesis by (rule exI[of _ "[]"]) (use True in \<open>auto simp: setActive_def\<close>)
next
  case False
  show ?thesis
    by (rule exI[of _ "[Publish (if a then ''taskmanager-activated'' else ''taskmanager-deactivated'') None,
                        ClassToggle ''task-manager'' ''active'' a,
                        ClassToggle ''task-manager'' ''empty'' (a \<and> length (stack s) = 0)]"])
       (use False in \<open>auto simp: setActive_def publish_def emit_def\<close>)
qed

lemma hideFinish_ok:
  assumes "wf s"
  shows "\<exists>m e c f. hideFinish s =
       Inr (s\<lparr>appToCardMap := m, elementToCardMap := e, active := False,
              isTransitioning := (if active s then False else isTransitioning s),
              cardsList := c, effects := effects s @ f\<rparr>) \<and>
     wfCards m c (nextElement s) \<and>
     left f = stack s \<and> entered f = [] \<and> created f = [] \<and>
     fst ` set m = fst ` set (appToCardMap s) - set (stack s)"
proof -
  from setActive_frame[of False s] obtain f0 where
    sa: "setActive False s = s\<lparr>active := False,
            isTransitioning := (if active s = False then isTransitioning s else False),
            effects := effects s @ f0\<rparr>"
    and f0: "left f0 = []" "entered f0 = []" "created f0 = []"
    by (elim exE conjE) (rule that)
  let ?h = "[ClassRemove ''task-manager'' ''to-home'', ClassRemove ''task-manager'' ''filtered'']"
  let ?s2 = "s\<lparr>active := False,
            isTransitioning := (if active s then False else isTransitioning s),
            effects := effects s @ f0 @ ?h\<rparr>"
  have hf: "hideFinish s = leaveAll (stack s) ?s2"
    unfolding hideFinish_def sa by (simp add: emit_def Let_def)
  have w2: "wf ?s2" using assms by (simp add: wf_def)
  from leaveAll_wf[OF w2, of "stack s"] obtain m e c f where
    l: "leaveAll (stack s) ?s2 =
       Inr (?s2\<lparr>appToCardMap := m, elementToCardMap := e, cardsList := c,
              effects := effects ?s2 @ f\<rparr>)"
      "wfCards m c (nextElement ?s2)"
      "left f = stack s" "entered f = []" "created f = []"
      "fst ` set m = fst ` set (appToCardMap ?s2) - set (stack s)"
    by (elim exE conjE) (rule that)
  show ?thesis
    unfolding hf
    apply (rule exI[of _ m], rule exI[of _ e], rule exI[of _ c], rule exI[of _ "f0 @ ?h @ f"])
    apply (intro conjI)
    subgoal using l(1) by simp
    subgoal using l(2) by simp
    subgoal using l(3) f0 by (simp add: left_append)
    subgoal using l(4) f0 by (simp add: entered_append)
    subgoal using l(5) f0 by (simp add: created_append)
    subgoal using l(6) by simp
    done
qed

lemma effectsSince_append [simp]:
  "effectsSince s (t\<lparr>effects := effects s @ f\<rparr>) = f"
  by (simp add: effectsSince_def)

text \<open>
  C3, as the code has it. In a pass of \<^verbatim>\<open>updateStack()\<close> the windows told
  \<^verbatim>\<open>enterTaskManager()\<close> are the windows of the cards the pass creates, in
  the same order, each once: they are the windows of the new stack that had no
  card. The pass tells no window \<^verbatim>\<open>leaveTaskManager()\<close>, whatever it removes;
  that call is made by the teardown of \<^verbatim>\<open>hide()\<close>, once for each window of
  the stack, in stack order.
\<close>

theorem updateStack_enters_hide_leaves:
  assumes "wf s"
  shows "(\<exists>s'. updateStack env s = Inr s' \<and>
            map app (created (effectsSince s s')) = entered (effectsSince s s') \<and>
            distinct (entered (effectsSince s s')) \<and>
            set (entered (effectsSince s s')) =
              {b \<in> set (stack s'). map_of (appToCardMap s) b = None} \<and>
            (\<forall>k \<in> set (created (effectsSince s s')). map_of (appToCardMap s') (app k) = Some k) \<and>
            left (effectsSince s s') = [] \<and>
            effects s' = effects s @ effectsSince s s') \<and>
         (\<exists>t. hideFinish s = Inr t \<and>
            left (effectsSince s t) = stack s \<and>
            entered (effectsSince s t) = [] \<and>
            effects t = effects s @ effectsSince s t)"
proof
  from updateStack_notifies[OF assms, of env] obtain s' where
    u: "updateStack env s = Inr s'" "stack s' = latestStack env s"
       "map app (created (effectsSince s s')) = entered (effectsSince s s')"
       "distinct (entered (effectsSince s s'))"
       "set (entered (effectsSince s s')) =
             {b \<in> set (latestStack env s). map_of (appToCardMap s) b = None}"
       "\<forall>k \<in> set (created (effectsSince s s')). map_of (appToCardMap s') (app k) = Some k"
       "left (effectsSince s s') = []"
       "effects s' = effects s @ effectsSince s s'"
    by (elim exE conjE) (rule that)
  show "\<exists>s'. updateStack env s = Inr s' \<and>
            map app (created (effectsSince s s')) = entered (effectsSince s s') \<and>
            distinct (entered (effectsSince s s')) \<and>
            set (entered (effectsSince s s')) =
              {b \<in> set (stack s'). map_of (appToCardMap s) b = None} \<and>
            (\<forall>k \<in> set (created (effectsSince s s')). map_of (appToCardMap s') (app k) = Some k) \<and>
            left (effectsSince s s') = [] \<and>
            effects s' = effects s @ effectsSince s s'"
    by (rule exI[of _ s']) (use u in simp)
next
  from hideFinish_ok[OF assms] obtain m e c f where
    h: "hideFinish s =
       Inr (s\<lparr>appToCardMap := m, elementToCardMap := e, active := False,
              isTransitioning := (if active s then False else isTransitioning s),
              cardsList := c, effects := effects s @ f\<rparr>)"
     "left f = stack s" "entered f = []"
    by (elim exE conjE) (rule that)
  show "\<exists>t. hideFinish s = Inr t \<and> left (effectsSince s t) = stack s \<and>
          entered (effectsSince s t) = [] \<and> effects t = effects s @ effectsSince s t"
    by (rule exI[of _ "s\<lparr>appToCardMap := m, elementToCardMap := e, active := False,
              isTransitioning := (if active s then False else isTransitioning s),
              cardsList := c, effects := effects s @ f\<rparr>"]) (use h in simp)
qed

lemma updateStack_tmAB_envBC:
  "updateStack envBC tmAB =
     Inr (tmAB\<lparr>appToCardMap := [(appB, cardB), (appC, \<lparr>element = 2, app = appC, screenshotsDisabled = False\<rparr>)],
               elementToCardMap := [(1, cardB), (2, \<lparr>element = 2, app = appC, screenshotsDisabled = False\<rparr>)],
               stack := [appB, appC],
               currentCard := Ref cardB,
               cardsList := [1, 2], nextElement := 3,
               effects := [SetL10n ''no-recent-app-windows'',
                           ClassToggle ''task-manager'' ''filtered'' False,
                           RemoveChild 0,
                           NewCard \<lparr>element = 2, app = appC, screenshotsDisabled = False\<rparr>,
                           AppendChild 2, EnterTaskManager appC,
                           Translate cardB 80,
                           Translate \<lparr>element = 2, app = appC, screenshotsDisabled = False\<rparr> 265,
                           SetListWidth 505,
                           SetAttribute cardB ''aria-hidden'' (BoolAttr False),
                           SetAttribute cardB ''aria-setsize'' (NumAttr 2),
                           SetAttribute cardB ''aria-posinset'' (NumAttr 1),
                           SetAttribute \<lparr>element = 2, app = appC, screenshotsDisabled = False\<rparr> ''aria-hidden'' (BoolAttr True),
                           SetAttribute \<lparr>element = 2, app = appC, screenshotsDisabled = False\<rparr> ''aria-setsize'' (NumAttr 2),
                           SetAttribute \<lparr>element = 2, app = appC, screenshotsDisabled = False\<rparr> ''aria-posinset'' (NumAttr 2)]\<rparr>)"
  by (simp add: run_defs tmAB_def envBC_def appA_def appB_def appC_def cardA_def cardB_def)

theorem updateStack_enters_hide_leaves_witness:
  "wf tmAB \<and>
   returned (updateStack envBC tmAB) \<and>
   entered (effectsSince tmAB (stateOf (updateStack envBC tmAB))) = [appC] \<and>
   left (effectsSince tmAB (stateOf (updateStack envBC tmAB))) = [] \<and>
   returned (hideFinish tmAB) \<and>
   left (effectsSince tmAB (stateOf (hideFinish tmAB))) = [appA, appB]"
proof -
  from updateStack_enters_hide_leaves[OF wf_tmAB, of envBC] obtain s' t where
    u: "updateStack envBC tmAB = Inr s'" "left (effectsSince tmAB s') = []"
    and h: "hideFinish tmAB = Inr t" "left (effectsSince tmAB t) = stack tmAB"
    by (elim exE conjE) (rule that)
  have e: "entered (effectsSince tmAB (stateOf (updateStack envBC tmAB))) = [appC]"
    unfolding updateStack_tmAB_envBC by (simp add: stateOf_def effectsSince_def tmAB_def)
  show ?thesis
    using u h e wf_tmAB by (simp add: returned_def stateOf_def tmAB_def)
qed

text \<open>
  C3, as the specification has it, fails: the pass removes the card of a window
  that has left the snapshot and does not tell the window.
\<close>

theorem updateStack_removal_unnotified_counterexample:
  "returned (updateStack envNone tmA) \<and>
   map_of (appToCardMap tmA) appA = Some cardA \<and>
   appA \<notin> set (stack (stateOf (updateStack envNone tmA))) \<and>
   map_of (appToCardMap (stateOf (updateStack envNone tmA))) appA = None \<and>
   RemoveChild (element cardA) \<in> set (effects (stateOf (updateStack envNone tmA))) \<and>
   LeaveTaskManager appA \<notin> set (effects (stateOf (updateStack envNone tmA)))"
  unfolding updateStack_tmA_envNone
  by (simp add: returned_def stateOf_def tmA_def cardA_def)

subsection \<open>C10: the cards that stay\<close>

text \<open>
  C10. In a pass of \<^verbatim>\<open>updateStack()\<close>, a window that had a card before the
  pass and is in the new stack has the same card after it, and
  \<^verbatim>\<open>enterTaskManager()\<close> is called only on windows that had no card before
  the pass.
\<close>

theorem updateStack_keeps_cards:
  assumes "wf s"
  shows "\<exists>s'. updateStack env s = Inr s' \<and>
           (\<forall>a \<in> set (stack s'). \<forall>c. map_of (appToCardMap s) a = Some c \<longrightarrow>
               map_of (appToCardMap s') a = Some c) \<and>
           effects s' = effects s @ effectsSince s s' \<and>
           (\<forall>a \<in> set (entered (effectsSince s s')). map_of (appToCardMap s) a = None) \<and>
           (\<forall>k \<in> set (created (effectsSince s s')). map_of (appToCardMap s) (app k) = None)"
proof -
  from updateStack_notifies[OF assms, of env] obtain s' where
    u: "updateStack env s = Inr s'" "stack s' = latestStack env s"
       "\<forall>b \<in> set (latestStack env s). \<forall>x. map_of (appToCardMap s) b = Some x \<longrightarrow>
               map_of (appToCardMap s') b = Some x"
       "map app (created (effectsSince s s')) = entered (effectsSince s s')"
       "set (entered (effectsSince s s')) =
             {b \<in> set (latestStack env s). map_of (appToCardMap s) b = None}"
       "effects s' = effects s @ effectsSince s s'"
    by (elim exE conjE) (rule that)
  have ent: "\<forall>a \<in> set (entered (effectsSince s s')). map_of (appToCardMap s) a = None"
    using u(5) by simp
  have "\<forall>k \<in> set (created (effectsSince s s')). app k \<in> set (entered (effectsSince s s'))"
    using u(4) by (metis image_eqI list.set_map)
  with ent have cre: "\<forall>k \<in> set (created (effectsSince s s')). map_of (appToCardMap s) (app k) = None"
    by blast
  show ?thesis
    by (rule exI[of _ s']) (use u(1,2,3,6) ent cre in simp)
qed

theorem updateStack_keeps_cards_witness:
  "wf tmAB \<and>
   returned (updateStack envBC tmAB) \<and>
   appB \<in> set (stack (stateOf (updateStack envBC tmAB))) \<and>
   map_of (appToCardMap tmAB) appB = Some cardB \<and>
   map_of (appToCardMap (stateOf (updateStack envBC tmAB))) appB = Some cardB \<and>
   appC \<in> set (entered (effectsSince tmAB (stateOf (updateStack envBC tmAB)))) \<and>
   map_of (appToCardMap tmAB) appC = None"
proof -
  from updateStack_keeps_cards[OF wf_tmAB, of envBC] obtain s' where
    u: "updateStack envBC tmAB = Inr s'"
       "\<forall>a \<in> set (stack s'). \<forall>c. map_of (appToCardMap tmAB) a = Some c \<longrightarrow>
               map_of (appToCardMap s') a = Some c"
       "\<forall>a \<in> set (entered (effectsSince tmAB s')). map_of (appToCardMap tmAB) a = None"
    by (elim exE conjE) (rule that)
  have s': "s' = stateOf (updateStack envBC tmAB)" using u(1) by (simp add: stateOf_def)
  have b: "appB \<in> set (stack s')" "map_of (appToCardMap tmAB) appB = Some cardB"
    unfolding s' updateStack_tmAB_envBC
    by (simp_all add: stateOf_def tmAB_def appA_def appB_def)
  have c: "appC \<in> set (entered (effectsSince tmAB s'))"
    unfolding s' updateStack_tmAB_envBC
    by (simp add: stateOf_def effectsSince_def tmAB_def)
  from u(2) b have kb: "map_of (appToCardMap s') appB = Some cardB" by blast
  from u(3) c have kc: "map_of (appToCardMap tmAB) appC = None" by blast
  show ?thesis
    using wf_tmAB u(1) b c kb kc unfolding s'[symmetric] by (simp add: returned_def)
qed

subsection \<open>C2: a second pass\<close>

lemma updateStack_unfold:
  "updateStack env s =
      (case removeMissing (latestStack env s) (map fst (appToCardMap s))
              (s\<lparr>stack := latestStack env s, effects := effects s @ stackHeader s\<rparr>) of
         Inl e \<Rightarrow> Inl e
       | Inr s4 \<Rightarrow> updateLayout env (addMissing (stack s4) s4))"
  by (cases "browserOnly s")
     (simp_all add: updateStack_def latestStack_def stackHeader_def emit_def Let_def)

lemma updateStack_settled:
  assumes k: "fst ` set (appToCardMap s) = set (stack s)"
      and st: "stack s = latestStack env s"
  shows "\<exists>fx. updateStack env s =
       Inr (s\<lparr>cardWidth := Num (of_nat (innerWidth env) / 2),
              cardHeight := Num (of_nat (innerHeight env) / 2),
              currentCard := cardAtScroll env (s\<lparr>cardWidth := Num (of_nat (innerWidth env) / 2)\<rparr>),
              effects := effects s @ stackHeader s @
                layoutWrites (of_nat (innerWidth env) / 2)
                  (of_nat (innerWidth env) - of_nat (innerWidth env) / 2) 0 (stack s) (appToCardMap s) @
                [SetListWidth (contentWidth (innerWidth env) (length (stack s)))] @ fx\<rparr>) \<and>
     (\<forall>x \<in> set fx. isAriaWrite x) \<and>
     (currentCard s = cardAtScroll env (s\<lparr>cardWidth := Num (of_nat (innerWidth env) / 2)\<rparr>) \<longrightarrow> fx = [])"
proof -
  let ?s3 = "s\<lparr>stack := latestStack env s, effects := effects s @ stackHeader s\<rparr>"
  have s3: "?s3 = s\<lparr>effects := effects s @ stackHeader s\<rparr>" using st[symmetric] by simp
  have r: "removeMissing (latestStack env s) (map fst (appToCardMap s)) ?s3 = Inr ?s3"
    by (rule removeMissing_noop) (use k st in auto)
  have h: "hasCards (stack ?s3) (appToCardMap ?s3)" using k st by (simp add: hasCards_keys)
  have a: "addMissing (stack ?s3) ?s3 = ?s3" by (rule addMissing_noop[OF h])
  have u: "updateStack env s = updateLayout env ?s3"
    unfolding updateStack_unfold r sum.case a ..
  have cc: "cardAtScroll env (?s3\<lparr>cardWidth := Num (of_nat (innerWidth env) / 2)\<rparr>) =
            cardAtScroll env (s\<lparr>cardWidth := Num (of_nat (innerWidth env) / 2)\<rparr>)"
    using st[symmetric] by (simp add: cardAtScroll_def getCurrentIndex_def)
  from updateLayout_ok[OF h, of env] obtain fx where
    l: "updateLayout env ?s3 =
               Inr (?s3\<lparr>cardWidth := Num (of_nat (innerWidth env) / 2),
                      cardHeight := Num (of_nat (innerHeight env) / 2),
                      currentCard := cardAtScroll env (?s3\<lparr>cardWidth := Num (of_nat (innerWidth env) / 2)\<rparr>),
                      effects := effects ?s3 @
                        layoutWrites (of_nat (innerWidth env) / 2)
                          (of_nat (innerWidth env) - of_nat (innerWidth env) / 2) 0 (stack ?s3) (appToCardMap ?s3) @
                        [SetListWidth (contentWidth (innerWidth env) (length (stack ?s3)))] @ fx\<rparr>)"
    and fx: "\<forall>e \<in> set fx. isAriaWrite e"
    and fn: "currentCard ?s3 = cardAtScroll env (?s3\<lparr>cardWidth := Num (of_nat (innerWidth env) / 2)\<rparr>) \<longrightarrow> fx = []"
    by (elim exE conjE) (rule that)
  show ?thesis
    apply (rule exI[of _ fx])
    apply (intro conjI)
    subgoal unfolding u l cc using st[symmetric] by simp
    subgoal using fx .
    subgoal using fn unfolding cc by simp
    done
qed

lemma cardAtScroll_cong:
  "stack s = stack t \<Longrightarrow> appToCardMap s = appToCardMap t \<Longrightarrow> cardWidth s = cardWidth t \<Longrightarrow>
   scrollLeft env = scrollLeft env' \<Longrightarrow> cardAtScroll env s = cardAtScroll env' t"
  by (simp add: cardAtScroll_def getCurrentIndex_def split: option.splits)

lemma latestStack_cong:
  "snapshot env' = snapshot env \<Longrightarrow> browserOnly s' = browserOnly s \<Longrightarrow>
   latestStack env' s' = latestStack env s"
  by (simp add: latestStack_def)

text \<open>
  C2. A second pass of \<^verbatim>\<open>updateStack()\<close> on the same snapshot returns and
  leaves the cards as the first left them: both maps, the children of the list,
  the stack and the allocation counter are the same, and the second pass creates
  no card, appends and removes no child, and calls neither
  \<^verbatim>\<open>enterTaskManager()\<close> nor \<^verbatim>\<open>leaveTaskManager()\<close>. When the viewport
  and the scroll position are the same too, the state after the second pass is
  the state after the first, and all the second pass does is to write again,
  with the same values, what the first wrote: it writes no accessibility
  attribute.
\<close>

theorem updateStack_idempotent:
  assumes w: "wf s"
      and u1: "updateStack env s = Inr s1"
      and sn: "snapshot env' = snapshot env"
  shows "\<exists>s2. updateStack env' s1 = Inr s2 \<and>
           appToCardMap s2 = appToCardMap s1 \<and>
           elementToCardMap s2 = elementToCardMap s1 \<and>
           cardsList s2 = cardsList s1 \<and>
           stack s2 = stack s1 \<and>
           nextElement s2 = nextElement s1 \<and>
           effects s2 = effects s1 @ effectsSince s1 s2 \<and>
           (\<forall>x \<in> set (effectsSince s1 s2). \<not> isLifecycle x) \<and>
           (innerWidth env' = innerWidth env \<and> innerHeight env' = innerHeight env \<and>
            scrollLeft env' = scrollLeft env \<longrightarrow>
              s2 = s1\<lparr>effects := effects s2\<rparr> \<and>
              set (effectsSince s1 s2) \<subseteq> set (effectsSince s s1) \<and>
              (\<forall>x \<in> set (effectsSince s1 s2). \<not> isAriaWrite x))"
proof -
  let ?st = "latestStack env s"
  let ?cw = "of_nat (innerWidth env) / 2 :: rat"
  let ?cw' = "of_nat (innerWidth env') / 2 :: rat"
  from updateStack_run[OF w, of env] obtain m e c n fr fa fx where
    u: "updateStack env s =
       Inr (s\<lparr>appToCardMap := m, elementToCardMap := e, stack := ?st,
              currentCard := cardAtScroll env
                (s\<lparr>appToCardMap := m, stack := ?st, cardWidth := Num ?cw\<rparr>),
              cardWidth := Num ?cw,
              cardHeight := Num (of_nat (innerHeight env) / 2),
              cardsList := c, nextElement := n,
              effects := effects s @ stackHeader s @ fr @ fa @
                layoutWrites ?cw (of_nat (innerWidth env) - ?cw) 0 ?st m @
                [SetListWidth (contentWidth (innerWidth env) (length ?st))] @ fx\<rparr>)"
    and keys: "fst ` set m = set ?st"
    by (elim exE conjE) (rule that)
  let ?es1 = "stackHeader s @ fr @ fa @
                layoutWrites ?cw (of_nat (innerWidth env) - ?cw) 0 ?st m @
                [SetListWidth (contentWidth (innerWidth env) (length ?st))] @ fx"
  have s1: "s1 = s\<lparr>appToCardMap := m, elementToCardMap := e, stack := ?st,
              currentCard := cardAtScroll env
                (s\<lparr>appToCardMap := m, stack := ?st, cardWidth := Num ?cw\<rparr>),
              cardWidth := Num ?cw,
              cardHeight := Num (of_nat (innerHeight env) / 2),
              cardsList := c, nextElement := n,
              effects := effects s @ ?es1\<rparr>"
    using u u1 by simp
  have f1: "appToCardMap s1 = m" "stack s1 = ?st" "browserOnly s1 = browserOnly s"
    "cardWidth s1 = Num ?cw" "cardHeight s1 = Num (of_nat (innerHeight env) / 2)"
    "currentCard s1 = cardAtScroll env (s\<lparr>appToCardMap := m, stack := ?st, cardWidth := Num ?cw\<rparr>)"
    "effects s1 = effects s @ ?es1"
    unfolding s1 by simp_all
  have es1: "effectsSince s s1 = ?es1" unfolding effectsSince_def f1(7) by simp
  have hd: "stackHeader s1 = stackHeader s" by (simp add: stackHeader_def f1)
  have k1: "fst ` set (appToCardMap s1) = set (stack s1)" using keys by (simp add: f1)
  have st1: "stack s1 = latestStack env' s1"
    using latestStack_cong[OF sn f1(3)] by (simp add: f1)
  let ?L2 = "layoutWrites ?cw' (of_nat (innerWidth env') - ?cw') 0 (stack s1) (appToCardMap s1)"
  let ?W2 = "SetListWidth (contentWidth (innerWidth env') (length (stack s1)))"
  from updateStack_settled[OF k1 st1] obtain gx where
    u2: "updateStack env' s1 =
       Inr (s1\<lparr>cardWidth := Num ?cw',
              cardHeight := Num (of_nat (innerHeight env') / 2),
              currentCard := cardAtScroll env' (s1\<lparr>cardWidth := Num ?cw'\<rparr>),
              effects := effects s1 @ stackHeader s1 @ ?L2 @ [?W2] @ gx\<rparr>)"
    and gx: "\<forall>x \<in> set gx. isAriaWrite x"
    and gn: "currentCard s1 = cardAtScroll env' (s1\<lparr>cardWidth := Num ?cw'\<rparr>) \<longrightarrow> gx = []"
    by (elim exE conjE) (rule that)
  let ?es2 = "stackHeader s1 @ ?L2 @ [?W2] @ gx"
  let ?s2 = "s1\<lparr>cardWidth := Num ?cw',
              cardHeight := Num (of_nat (innerHeight env') / 2),
              currentCard := cardAtScroll env' (s1\<lparr>cardWidth := Num ?cw'\<rparr>),
              effects := effects s1 @ ?es2\<rparr>"
  have es2: "effectsSince s1 ?s2 = ?es2" by (simp add: effectsSince_def)
  have quiet: "\<forall>x \<in> set ?es2. \<not> isLifecycle x"
    using gx by (auto dest: stackHeader_plain layoutWrites_plain aria_not_lifecycle)
  have same: "s1\<lparr>cardWidth := Num ?cw', cardHeight := Num (of_nat (innerHeight env') / 2),
              currentCard := cardAtScroll env' (s1\<lparr>cardWidth := Num ?cw'\<rparr>),
              effects := effects s1 @ ?es2\<rparr> = s1\<lparr>effects := effects s1 @ ?es2\<rparr> \<and>
            set ?es2 \<subseteq> set ?es1 \<and> (\<forall>x \<in> set ?es2. \<not> isAriaWrite x)"
    if eq: "innerWidth env' = innerWidth env" "innerHeight env' = innerHeight env"
           "scrollLeft env' = scrollLeft env"
  proof -
    have cw: "?cw' = ?cw" using eq(1) by simp
    have cc: "cardAtScroll env' (s1\<lparr>cardWidth := Num ?cw'\<rparr>) = currentCard s1"
      unfolding f1(6) by (rule cardAtScroll_cong) (simp_all add: f1 eq)
    then have g0: "gx = []" using gn by simp
    have a: "s1\<lparr>cardWidth := Num ?cw', cardHeight := Num (of_nat (innerHeight env') / 2),
              currentCard := cardAtScroll env' (s1\<lparr>cardWidth := Num ?cw'\<rparr>),
              effects := effects s1 @ ?es2\<rparr> = s1\<lparr>effects := effects s1 @ ?es2\<rparr>"
      by (rule TaskManager.equality) (simp_all add: cc[unfolded cw] cw eq(2) f1(4,5))
    have L: "?L2 = layoutWrites ?cw (of_nat (innerWidth env) - ?cw) 0 ?st m"
      unfolding f1 eq(1) ..
    have W: "?W2 = SetListWidth (contentWidth (innerWidth env) (length ?st))"
      unfolding f1 eq(1) ..
    have b: "set ?es2 \<subseteq> set ?es1" unfolding L W hd g0 by auto
    have c: "\<forall>x \<in> set ?es2. \<not> isAriaWrite x"
      unfolding g0 by (auto dest: stackHeader_plain layoutWrites_plain)
    show ?thesis using a b c by blast
  qed
  show ?thesis
    apply (rule exI[of _ ?s2])
    unfolding es2 es1
    apply (intro conjI)
    subgoal using u2 .
    subgoal by simp
    subgoal by simp
    subgoal by simp
    subgoal by simp
    subgoal by simp
    subgoal by simp
    subgoal using quiet .
    subgoal using same by simp
    done
qed

theorem updateStack_idempotent_witness:
  "wf tmAB \<and>
   returned (updateStack envBC tmAB) \<and>
   returned (updateStack envBC (stateOf (updateStack envBC tmAB))) \<and>
   appToCardMap (stateOf (updateStack envBC (stateOf (updateStack envBC tmAB)))) =
     appToCardMap (stateOf (updateStack envBC tmAB)) \<and>
   stateOf (updateStack envBC (stateOf (updateStack envBC tmAB))) =
     (stateOf (updateStack envBC tmAB))
       \<lparr>effects := effects (stateOf (updateStack envBC (stateOf (updateStack envBC tmAB))))\<rparr>"
proof -
  let ?s1 = "stateOf (updateStack envBC tmAB)"
  have u1: "updateStack envBC tmAB = Inr ?s1"
    unfolding updateStack_tmAB_envBC by (simp add: stateOf_def)
  from updateStack_idempotent[OF wf_tmAB u1 refl] obtain s2 where
    u2: "updateStack envBC ?s1 = Inr s2"
    and m: "appToCardMap s2 = appToCardMap ?s1"
    and same: "innerWidth envBC = innerWidth envBC \<and> innerHeight envBC = innerHeight envBC \<and>
            scrollLeft envBC = scrollLeft envBC \<longrightarrow>
              s2 = ?s1\<lparr>effects := effects s2\<rparr> \<and>
              set (effectsSince ?s1 s2) \<subseteq> set (effectsSince tmAB ?s1) \<and>
              (\<forall>x \<in> set (effectsSince ?s1 s2). \<not> isAriaWrite x)"
    by (elim exE conjE) (rule that)
  have s2: "stateOf (updateStack envBC ?s1) = s2" unfolding u2 by (simp add: stateOf_def)
  have r1: "returned (updateStack envBC tmAB)" by (subst u1) (simp add: returned_def)
  have r2: "returned (updateStack envBC ?s1)" unfolding u2 by (simp add: returned_def)
  from same have e: "s2 = ?s1\<lparr>effects := effects s2\<rparr>" by simp
  show ?thesis
    unfolding s2 using wf_tmAB r1 r2 m e by blast
qed

subsection \<open>C9: the scroll position\<close>

lemma setAria_currentCard:
  "setAria cur i as s = Inr s' \<Longrightarrow> currentCard s' = currentCard s"
proof (induction as arbitrary: i s)
  case Nil
  then show ?case by simp
next
  case (Cons a as)
  then show ?case by (auto split: option.splits)
qed

text \<open>
  C9. \<^verbatim>\<open>updateScrollPosition()\<close> compares the card at the scroll position with
  \<^verbatim>\<open>this.currentCard\<close>. When they are the same card the call changes nothing
  and writes nothing; a call that follows a call which found the same card is
  such a call; and a call that writes an attribute has changed
  \<^verbatim>\<open>this.currentCard\<close>.
\<close>

theorem updateScrollPosition_skips_unchanged:
  "(currentCard s = cardAtScroll env s \<longrightarrow> updateScrollPosition env s = Inr s) \<and>
   (updateScrollPosition env s = Inr s1 \<and> cardAtScroll env' s1 = cardAtScroll env s \<longrightarrow>
      updateScrollPosition env' s1 = Inr s1) \<and>
   (updateScrollPosition env s = Inr s1 \<and> effects s1 \<noteq> effects s \<longrightarrow>
      currentCard s1 \<noteq> currentCard s \<and> currentCard s1 = cardAtScroll env s)"
proof (intro conjI impI)
  assume "currentCard s = cardAtScroll env s"
  then show "updateScrollPosition env s = Inr s" by (simp add: updateScrollPosition_def Let_def)
next
  assume a: "updateScrollPosition env s = Inr s1 \<and> cardAtScroll env' s1 = cardAtScroll env s"
  have "currentCard s1 = cardAtScroll env s"
  proof (cases "currentCard s = cardAtScroll env s")
    case True
    then show ?thesis using a by (simp add: updateScrollPosition_def Let_def)
  next
    case False
    then have "setAria (cardAtScroll env s) 0 (stack s) (s\<lparr>currentCard := cardAtScroll env s\<rparr>) = Inr s1"
      using a by (simp add: updateScrollPosition_def Let_def)
    from setAria_currentCard[OF this] show ?thesis by simp
  qed
  then show "updateScrollPosition env' s1 = Inr s1"
    using a by (simp add: updateScrollPosition_def Let_def)
next
  assume a: "updateScrollPosition env s = Inr s1 \<and> effects s1 \<noteq> effects s"
  have ne: "currentCard s \<noteq> cardAtScroll env s"
    using a by (auto simp: updateScrollPosition_def Let_def)
  then have "setAria (cardAtScroll env s) 0 (stack s) (s\<lparr>currentCard := cardAtScroll env s\<rparr>) = Inr s1"
    using a by (simp add: updateScrollPosition_def Let_def)
  from setAria_currentCard[OF this] have "currentCard s1 = cardAtScroll env s" by simp
  then show "currentCard s1 \<noteq> currentCard s" "currentCard s1 = cardAtScroll env s"
    using ne by simp_all
qed

lemma cardAtScroll_tmAB:
  "cardAtScroll envBC tmAB = Ref cardA" "cardAtScroll envScrolled tmAB = Ref cardB"
  by (simp_all add: cardAtScroll_def getCurrentIndex_def tmAB_def envBC_def envScrolled_def
        appA_def appB_def)

lemma updateScrollPosition_tmAB_scrolled:
  "updateScrollPosition envScrolled tmAB =
     Inr (tmAB\<lparr>currentCard := Ref cardB,
               effects := [SetAttribute cardA ''aria-hidden'' (BoolAttr True),
                           SetAttribute cardA ''aria-setsize'' (NumAttr 2),
                           SetAttribute cardA ''aria-posinset'' (NumAttr 1),
                           SetAttribute cardB ''aria-hidden'' (BoolAttr False),
                           SetAttribute cardB ''aria-setsize'' (NumAttr 2),
                           SetAttribute cardB ''aria-posinset'' (NumAttr 2)]\<rparr>)"
  unfolding updateScrollPosition_def cardAtScroll_tmAB Let_def
  by (simp add: tmAB_def emit_def cardA_def cardB_def appA_def appB_def)

theorem updateScrollPosition_skips_unchanged_witness:
  "currentCard tmAB = cardAtScroll envBC tmAB \<and>
   updateScrollPosition envBC tmAB = Inr tmAB \<and>
   returned (updateScrollPosition envScrolled tmAB) \<and>
   effects (stateOf (updateScrollPosition envScrolled tmAB)) \<noteq> effects tmAB \<and>
   currentCard (stateOf (updateScrollPosition envScrolled tmAB)) \<noteq> currentCard tmAB \<and>
   updateScrollPosition envScrolled (stateOf (updateScrollPosition envScrolled tmAB)) =
     Inr (stateOf (updateScrollPosition envScrolled tmAB))"
proof -
  let ?s1 = "stateOf (updateScrollPosition envScrolled tmAB)"
  have c: "currentCard tmAB = cardAtScroll envBC tmAB"
    unfolding cardAtScroll_tmAB by (simp add: tmAB_def)
  have u: "updateScrollPosition envScrolled tmAB = Inr ?s1"
    unfolding updateScrollPosition_tmAB_scrolled by (simp add: stateOf_def)
  have e: "effects ?s1 \<noteq> effects tmAB"
    unfolding updateScrollPosition_tmAB_scrolled by (simp add: stateOf_def tmAB_def)
  have k: "cardAtScroll envScrolled ?s1 = cardAtScroll envScrolled tmAB"
    unfolding updateScrollPosition_tmAB_scrolled
    by (rule cardAtScroll_cong) (simp_all add: stateOf_def)
  note t1 = updateScrollPosition_skips_unchanged[of tmAB envBC tmAB envBC]
  note t2 = updateScrollPosition_skips_unchanged[of tmAB envScrolled ?s1 envScrolled]
  have r: "returned (updateScrollPosition envScrolled tmAB)"
    by (subst u) (simp add: returned_def)
  show ?thesis using t1 t2 c u e k r by blast
qed

subsection \<open>C4: the current index\<close>

text \<open>
  C4, as the code has it. \<^verbatim>\<open>getCurrentIndex()\<close> clamps from above only. For a
  positive card width and a stack of \<open>n \<ge> 1\<close> cards it returns
  \<open>min (n - 1) \<lfloor>scrollLeft / cardWidth\<rfloor>\<close>; when the scroll offset is not
  negative, that is the floor clamped to \<open>[0, n - 1]\<close>.
\<close>

theorem getCurrentIndex_min_floor:
  assumes "cardWidth s = Num cw" "0 < cw" "stack s \<noteq> []"
  shows "getCurrentIndex env s =
           Num (of_int (min (int (length (stack s)) - 1) \<lfloor>of_int (scrollLeft env) / cw\<rfloor>)) \<and>
         (0 \<le> scrollLeft env \<longrightarrow>
            min (int (length (stack s)) - 1) \<lfloor>of_int (scrollLeft env) / cw\<rfloor> =
              max 0 (min (int (length (stack s)) - 1) \<lfloor>of_int (scrollLeft env) / cw\<rfloor>) \<and>
            0 \<le> min (int (length (stack s)) - 1) \<lfloor>of_int (scrollLeft env) / cw\<rfloor> \<and>
            min (int (length (stack s)) - 1) \<lfloor>of_int (scrollLeft env) / cw\<rfloor> \<le> int (length (stack s)) - 1)"
proof
  have n: "(of_nat (length (stack s)) - 1 :: rat) = of_int (int (length (stack s)) - 1)" by simp
  show "getCurrentIndex env s =
           Num (of_int (min (int (length (stack s)) - 1) \<lfloor>of_int (scrollLeft env) / cw\<rfloor>))"
    using assms(1,2) unfolding getCurrentIndex_def n by (simp add: of_int_min)
next
  show "0 \<le> scrollLeft env \<longrightarrow>
            min (int (length (stack s)) - 1) \<lfloor>of_int (scrollLeft env) / cw\<rfloor> =
              max 0 (min (int (length (stack s)) - 1) \<lfloor>of_int (scrollLeft env) / cw\<rfloor>) \<and>
            0 \<le> min (int (length (stack s)) - 1) \<lfloor>of_int (scrollLeft env) / cw\<rfloor> \<and>
            min (int (length (stack s)) - 1) \<lfloor>of_int (scrollLeft env) / cw\<rfloor> \<le> int (length (stack s)) - 1"
  proof
    assume sl: "0 \<le> scrollLeft env"
    have "0 \<le> (of_int (scrollLeft env) :: rat) / cw" using sl assms(2) by simp
    then have f: "0 \<le> \<lfloor>(of_int (scrollLeft env) :: rat) / cw\<rfloor>" by simp
    have l: "0 \<le> int (length (stack s)) - 1" using assms(3) by (cases "stack s") auto
    show "min (int (length (stack s)) - 1) \<lfloor>of_int (scrollLeft env) / cw\<rfloor> =
              max 0 (min (int (length (stack s)) - 1) \<lfloor>of_int (scrollLeft env) / cw\<rfloor>) \<and>
            0 \<le> min (int (length (stack s)) - 1) \<lfloor>of_int (scrollLeft env) / cw\<rfloor> \<and>
            min (int (length (stack s)) - 1) \<lfloor>of_int (scrollLeft env) / cw\<rfloor> \<le> int (length (stack s)) - 1"
      using f l by auto
  qed
qed

theorem getCurrentIndex_min_floor_witness:
  "cardWidth tmAB = Num 160 \<and> (0::rat) < 160 \<and> stack tmAB \<noteq> [] \<and> 0 \<le> scrollLeft envScrolled \<and>
   getCurrentIndex envScrolled tmAB = Num 1"
proof -
  have h: "cardWidth tmAB = Num 160" "(0::rat) < 160" "stack tmAB \<noteq> []"
    by (simp_all add: tmAB_def)
  have sl: "scrollLeft envScrolled = 200" by (simp add: envScrolled_def envBC_def)
  have "getCurrentIndex envScrolled tmAB =
          Num (of_int (min (int (length (stack tmAB)) - 1) \<lfloor>of_int (scrollLeft envScrolled) / (160::rat)\<rfloor>))"
    using getCurrentIndex_min_floor[OF h, of envScrolled] by blast
  also have "\<dots> = Num 1" unfolding sl by (simp add: tmAB_def)
  finally show ?thesis using h sl by simp
qed

text \<open>
  C4, as the specification has it, fails: nothing clamps from below, and a
  negative scroll offset gives a negative index.
\<close>

theorem getCurrentIndex_negative_counterexample:
  "stack tmAB = [appA, appB] \<and> cardWidth tmAB = Num 160 \<and> scrollLeft envNegative = - 160 \<and>
   getCurrentIndex envNegative tmAB = Num (- 1)"
  by (simp add: getCurrentIndex_def tmAB_def envNegative_def envBC_def)

subsection \<open>C5: the layout\<close>

lemma translates_append: "translates (xs @ ys) = translates xs @ translates ys"
  by (induction xs rule: translates.induct) auto

lemma widths_append: "widths (xs @ ys) = widths xs @ widths ys"
  by (induction xs rule: widths.induct) auto

lemma aria_no_layout: "\<forall>x \<in> set f. isAriaWrite x \<Longrightarrow> translates f = [] \<and> widths f = []"
proof (induction f)
  case Nil
  then show ?case by simp
next
  case (Cons x f)
  then show ?case by (cases x) auto
qed

lemma translates_layoutWrites:
  "translates (layoutWrites cw mg i as m) =
     map (\<lambda>(k, a). (the (map_of m a), mg / 2 + (cw + CARD_GUTTER) * of_nat k)) (List.enumerate i as)"
  unfolding layoutWrites_def by (induction as arbitrary: i) auto

lemma widths_layoutWrites: "widths (layoutWrites cw mg i as m) = []"
  unfolding layoutWrites_def by (induction as arbitrary: i) auto

lemma offsets_layoutWrites:
  "map snd (translates (layoutWrites cw mg 0 as m)) =
     map (\<lambda>i. mg / 2 + of_nat i * (cw + CARD_GUTTER)) [0..<length as]"
proof -
  have "map snd (translates (layoutWrites cw mg 0 as m)) =
          map ((\<lambda>k. mg / 2 + (cw + CARD_GUTTER) * of_nat k) \<circ> fst) (List.enumerate 0 as)"
    unfolding translates_layoutWrites by (simp add: case_prod_beta comp_def)
  also have "\<dots> = map (\<lambda>k. mg / 2 + (cw + CARD_GUTTER) * of_nat k) (map fst (List.enumerate 0 as))"
    by (simp only: map_map)
  also have "\<dots> = map (\<lambda>k. mg / 2 + (cw + CARD_GUTTER) * of_nat k) [0..<length as]"
    by (simp only: map_fst_enumerate add_0)
  also have "\<dots> = map (\<lambda>i. mg / 2 + of_nat i * (cw + CARD_GUTTER)) [0..<length as]"
    by (simp add: mult.commute)
  finally show ?thesis .
qed

lemma cards_layoutWrites:
  assumes "hasCards as m"
  shows "map (Some \<circ> fst) (translates (layoutWrites cw mg 0 as m)) = map (map_of m) as"
proof -
  have "map (Some \<circ> fst) (translates (layoutWrites cw mg 0 as m)) =
          map ((\<lambda>a. Some (the (map_of m a))) \<circ> snd) (List.enumerate 0 as)"
    unfolding translates_layoutWrites by (simp add: case_prod_beta comp_def)
  also have "\<dots> = map (\<lambda>a. Some (the (map_of m a))) (map snd (List.enumerate 0 as))"
    by (simp only: map_map)
  also have "\<dots> = map (\<lambda>a. Some (the (map_of m a))) as"
    by (simp only: map_snd_enumerate)
  also have "\<dots> = map (map_of m) as"
    using assms by (auto simp: hasCards_def)
  finally show ?thesis .
qed

lemma arrayAt_Nil: "arrayAt [] i = None"
  by (cases i) auto

lemma updateLayout_empty:
  assumes "stack s = []"
  shows "updateLayout env s =
           Inr (s\<lparr>cardWidth := Num (of_nat (innerWidth env) / 2),
                  cardHeight := Num (of_nat (innerHeight env) / 2),
                  currentCard := Undefined,
                  effects := effects s @ [SetListWidth (of_nat (innerWidth env))]\<rparr>)"
proof -
  have w: "(of_nat (innerWidth env) :: rat) / 2 +
             max (of_nat (innerWidth env) / 2) (- CARD_GUTTER) = of_nat (innerWidth env)"
    by (simp add: CARD_GUTTER_def max_def)
  show ?thesis
    by (cases "currentCard s = Undefined";
        simp add: updateLayout_def updateScrollPosition_def cardAtScroll_def arrayAt_Nil
          assms emit_def Let_def;
        rule TaskManager.equality; simp add: w)
qed

text \<open>
  C5. With \<open>w\<close> the viewport width, \<open>n\<close> the number of cards of the stack and
  every window of the stack having its card, \<^verbatim>\<open>updateLayout()\<close> returns; it
  sets \<^verbatim>\<open>cardWidth\<close> to \<open>w / 2\<close> and \<^verbatim>\<open>cardHeight\<close> to half the viewport
  height; it translates the cards of the stack, in stack order, the card at
  position \<open>i\<close> to \<open>margin / 2 + i * (cardWidth + CARD_GUTTER)\<close> with
  \<open>margin = w - cardWidth\<close>; it sets the width of the list once, to
  \<open>margin + max cardWidth (cardWidth * n + CARD_GUTTER * (n - 1))\<close>, which is
  not negative; and with no card all it writes is the width \<open>w\<close>.
\<close>

theorem updateLayout_offsets_and_width:
  assumes h: "hasCards (stack s) (appToCardMap s)"
      and w: "w = of_nat (innerWidth env)"
      and cw: "cw = w / 2"
      and mg: "margin = w - cw"
      and n: "n = length (stack s)"
  shows "\<exists>s'. updateLayout env s = Inr s' \<and>
           cardWidth s' = Num cw \<and>
           cardHeight s' = Num (of_nat (innerHeight env) / 2) \<and>
           effects s' = effects s @ effectsSince s s' \<and>
           map snd (translates (effectsSince s s')) =
             map (\<lambda>i. margin / 2 + of_nat i * (cw + CARD_GUTTER)) [0..<n] \<and>
           map (Some \<circ> fst) (translates (effectsSince s s')) =
             map (map_of (appToCardMap s)) (stack s) \<and>
           widths (effectsSince s s') =
             [margin + max cw (cw * of_nat n + CARD_GUTTER * (of_nat n - 1))] \<and>
           0 \<le> margin + max cw (cw * of_nat n + CARD_GUTTER * (of_nat n - 1)) \<and>
           (n = 0 \<longrightarrow> effectsSince s s' = [SetListWidth w])"
proof -
  let ?L = "layoutWrites cw margin 0 (stack s) (appToCardMap s)"
  let ?W = "margin + max cw (cw * of_nat n + CARD_GUTTER * (of_nat n - 1))"
  have cwd: "contentWidth (innerWidth env) (length (stack s)) = ?W"
    by (simp add: contentWidth_def w cw mg n)
  from updateLayout_ok[OF h, of env] obtain fx where
    l0: "updateLayout env s =
               Inr (s\<lparr>cardWidth := Num (of_nat (innerWidth env) / 2),
                      cardHeight := Num (of_nat (innerHeight env) / 2),
                      currentCard := cardAtScroll env (s\<lparr>cardWidth := Num (of_nat (innerWidth env) / 2)\<rparr>),
                      effects := effects s @
                        layoutWrites (of_nat (innerWidth env) / 2)
                          (of_nat (innerWidth env) - of_nat (innerWidth env) / 2) 0 (stack s) (appToCardMap s) @
                        [SetListWidth (contentWidth (innerWidth env) (length (stack s)))] @ fx\<rparr>)"
    and fx: "\<forall>e \<in> set fx. isAriaWrite e"
    by (elim exE conjE) (rule that)
  have l: "updateLayout env s =
               Inr (s\<lparr>cardWidth := Num cw,
                      cardHeight := Num (of_nat (innerHeight env) / 2),
                      currentCard := cardAtScroll env (s\<lparr>cardWidth := Num cw\<rparr>),
                      effects := effects s @ ?L @ [SetListWidth ?W] @ fx\<rparr>)"
    unfolding l0 cwd unfolding mg cw w ..
  let ?s' = "s\<lparr>cardWidth := Num cw,
                      cardHeight := Num (of_nat (innerHeight env) / 2),
                      currentCard := cardAtScroll env (s\<lparr>cardWidth := Num cw\<rparr>),
                      effects := effects s @ ?L @ [SetListWidth ?W] @ fx\<rparr>"
  have es: "effectsSince s ?s' = ?L @ [SetListWidth ?W] @ fx" by (simp add: effectsSince_def)
  have tr: "translates (?L @ [SetListWidth ?W] @ fx) = translates ?L"
    using aria_no_layout[OF fx] by (simp add: translates_append)
  have wi: "widths (?L @ [SetListWidth ?W] @ fx) = [?W]"
    using aria_no_layout[OF fx] by (simp add: widths_append widths_layoutWrites)
  have nn: "0 \<le> ?W"
  proof -
    have "0 \<le> cw" "0 \<le> margin" unfolding mg cw w by simp_all
    then show ?thesis by (simp add: max_def)
  qed
  have z: "effectsSince s ?s' = [SetListWidth w]" if "n = 0"
  proof -
    have e: "stack s = []" using that n by simp
    have "Inr ?s' = Inr (s\<lparr>cardWidth := Num (of_nat (innerWidth env) / 2),
                  cardHeight := Num (of_nat (innerHeight env) / 2),
                  currentCard := Undefined,
                  effects := effects s @ [SetListWidth (of_nat (innerWidth env))]\<rparr>) "
      using l updateLayout_empty[OF e, of env] by simp
    then have "effects ?s' = effects s @ [SetListWidth w]" unfolding w by (simp only: sum.inject) simp
    then show ?thesis by (simp add: effectsSince_def)
  qed
  show ?thesis
    apply (rule exI[of _ ?s'])
    unfolding es tr wi
    apply (intro conjI)
    subgoal using l .
    subgoal by simp
    subgoal by simp
    subgoal by simp
    subgoal unfolding n by (rule offsets_layoutWrites)
    subgoal by (rule cards_layoutWrites[OF h])
    subgoal ..
    subgoal by (rule nn)
    subgoal using z unfolding es by blast
    done
qed

theorem updateLayout_offsets_and_width_witness:
  "hasCards (stack tmABC) (appToCardMap tmABC) \<and>
   returned (updateLayout envBC tmABC) \<and>
   cardWidth (stateOf (updateLayout envBC tmABC)) = Num 160 \<and>
   map snd (translates (effectsSince tmABC (stateOf (updateLayout envBC tmABC)))) = [80, 265, 450] \<and>
   widths (effectsSince tmABC (stateOf (updateLayout envBC tmABC))) = [690]"
proof -
  have h: "hasCards (stack tmABC) (appToCardMap tmABC)"
    by (simp add: hasCards_def tmABC_def appA_def appB_def appC_def)
  have iw: "innerWidth envBC = 320" by (simp add: envBC_def)
  have n: "length (stack tmABC) = 3" by (simp add: tmABC_def)
  have upt3: "[0..<3] = [0, 1, 2]" by (simp add: upt_rec)
  from updateLayout_offsets_and_width[OF h refl refl refl refl, of envBC] obtain s' where
    u: "updateLayout envBC tmABC = Inr s'"
    and c: "cardWidth s' = Num (of_nat (innerWidth envBC) / 2)"
    and o: "map snd (translates (effectsSince tmABC s')) =
             map (\<lambda>i. (of_nat (innerWidth envBC) - of_nat (innerWidth envBC) / 2) / 2 +
                      of_nat i * (of_nat (innerWidth envBC) / 2 + CARD_GUTTER))
               [0..<length (stack tmABC)]"
    and wd: "widths (effectsSince tmABC s') =
             [of_nat (innerWidth envBC) - of_nat (innerWidth envBC) / 2 +
              max (of_nat (innerWidth envBC) / 2)
                (of_nat (innerWidth envBC) / 2 * of_nat (length (stack tmABC)) +
                 CARD_GUTTER * (of_nat (length (stack tmABC)) - 1))]"
    by (elim exE conjE) (rule that)
  have s': "stateOf (updateLayout envBC tmABC) = s'" unfolding u by (simp add: stateOf_def)
  have r: "returned (updateLayout envBC tmABC)" unfolding u by (simp add: returned_def)
  have c': "cardWidth s' = Num 160" using c unfolding iw by simp
  have o': "map snd (translates (effectsSince tmABC s')) = [80, 265, 450]"
    using o unfolding iw n upt3 by (simp add: CARD_GUTTER_def)
  have w': "widths (effectsSince tmABC s') = [690]"
    using wd unfolding iw n by (simp add: CARD_GUTTER_def)
  show ?thesis unfolding s' using h r c' o' w' by blast
qed

subsection \<open>C8: closing a card\<close>

lemma indexOf_nth:
  "distinct xs \<Longrightarrow> i < length xs \<Longrightarrow> indexOf xs (xs ! i) = int i"
proof (induction xs arbitrary: i)
  case Nil
  then show ?case by simp
next
  case (Cons y ys)
  show ?case
  proof (cases i)
    case 0
    then show ?thesis by simp
  next
    case (Suc j)
    then have j: "j < length ys" using Cons.prems by simp
    have "ys ! j \<noteq> y" using Cons.prems j by auto
    then show ?thesis using Cons.IH[of j] Cons.prems j Suc by (simp add: Let_def)
  qed
qed

lemma arrayAt_nat:
  "i < length xs \<Longrightarrow> arrayAt xs (Num (of_nat i)) = Some (xs ! i)"
  by simp

lemma panToApp_shape:
  "\<exists>w f. panToApp env a imm s = (w, emit f s) \<and>
         (\<forall>x \<in> set f. \<exists>p. x = ScrollTo p (\<not> imm)) \<and>
         ((w = Settled \<and> f = []) \<or> (w = Timer 200 \<and> length f = 1))"
proof (cases "fst (panToApp env a imm s) = Settled")
  case True
  show ?thesis
    by (rule exI[of _ Settled], rule exI[of _ "[]"])
       (use True in \<open>auto simp: panToApp_def Let_def emit_def split: if_splits\<close>)
next
  case False
  let ?idx0 = "(case a of None \<Rightarrow> - 1 | Some w \<Rightarrow> indexOf (stack s) w)"
  let ?idx = "(if ?idx0 = - 1 then int (length (stack s)) - 1 else ?idx0)"
  let ?d = "js_mul (js_add (cardWidth s) (Num CARD_GUTTER)) (Num (of_int ?idx))"
  show ?thesis
    by (rule exI[of _ "Timer 200"], rule exI[of _ "[ScrollTo ?d (\<not> imm)]"])
       (use False in \<open>auto simp: panToApp_def Let_def split: if_splits\<close>)
qed

text \<open>
  C8. A close action on a card, the stack holding at least two windows, none
  twice. When the card's window is the last of the stack, \<^verbatim>\<open>cardAction\<close>
  pans to the window before it and registers \<^verbatim>\<open>kill()\<close> on the promise of
  that pan: it has not called \<^verbatim>\<open>kill()\<close> when it returns, and the call is made
  when the promise of the pan is resolved, after the scroll the pan has asked
  for. When the window is at an earlier position, \<^verbatim>\<open>kill()\<close> is called at once,
  nothing is scrolled and nothing is registered.
\<close>

theorem cardAction_close_pans_then_kills:
  assumes d: "distinct (stack s)"
      and n: "2 \<le> length (stack s)"
      and i: "i < length (stack s)"
      and c: "app crd = stack s ! i"
  shows "(i = length (stack s) - 1 \<longrightarrow>
            (\<exists>w f. panToApp env (Some (stack s ! (length (stack s) - 2))) False s = (w, emit f s) \<and>
                   cardAction env crd ''close'' s =
                     (emit f s)\<lparr>pending := pending s @ [(w, KillApp (app crd))]\<rparr> \<and>
                   (\<forall>x \<in> set f. \<exists>p. x = ScrollTo p True) \<and>
                   ((w = Settled \<and> f = []) \<or> (w = Timer 200 \<and> length f = 1)) \<and>
                   deliver env' (length (pending s)) (cardAction env crd ''close'' s) =
                     Inr (emit (f @ [Kill (app crd)]) s))) \<and>
         (i < length (stack s) - 1 \<longrightarrow>
            cardAction env crd ''close'' s = emit [Kill (app crd)] s)"
proof (intro conjI impI)
  assume l: "i = length (stack s) - 1"
  let ?n = "length (stack s)"
  have ix: "indexOf (stack s) (app crd) = int ?n - 1"
    using indexOf_nth[OF d i] c l n by simp
  have q: "(of_nat ?n - 2 :: rat) = of_nat (?n - 2)" using n by (simp add: of_nat_diff)
  have at: "arrayAt (stack s) (Num (of_nat ?n - 2)) = Some (stack s ! (?n - 2))"
    unfolding q using n by (intro arrayAt_nat) simp
  from panToApp_shape[of env "Some (stack s ! (?n - 2))" False s] obtain w f where
    p: "panToApp env (Some (stack s ! (?n - 2))) False s = (w, emit f s)"
    and f: "\<forall>x \<in> set f. \<exists>p. x = ScrollTo p (\<not> False)"
    and wf: "(w = Settled \<and> f = []) \<or> (w = Timer 200 \<and> length f = 1)"
    by (elim exE conjE) (rule that)
  have ca: "cardAction env crd ''close'' s =
              (emit f s)\<lparr>pending := pending s @ [(w, KillApp (app crd))]\<rparr>"
    using ix n by (simp add: cardAction_def Let_def at p del: arrayAt.simps)
  have dl: "deliver env' (length (pending s)) (cardAction env crd ''close'' s) =
              Inr (emit (f @ [Kill (app crd)]) s)"
    unfolding ca by (simp add: deliver_def emit_def)
  show "\<exists>w f. panToApp env (Some (stack s ! (?n - 2))) False s = (w, emit f s) \<and>
                   cardAction env crd ''close'' s =
                     (emit f s)\<lparr>pending := pending s @ [(w, KillApp (app crd))]\<rparr> \<and>
                   (\<forall>x \<in> set f. \<exists>p. x = ScrollTo p True) \<and>
                   ((w = Settled \<and> f = []) \<or> (w = Timer 200 \<and> length f = 1)) \<and>
                   deliver env' (length (pending s)) (cardAction env crd ''close'' s) =
                     Inr (emit (f @ [Kill (app crd)]) s)"
    by (rule exI[of _ w], rule exI[of _ f]) (use p ca f wf dl in simp)
next
  assume l: "i < length (stack s) - 1"
  have "indexOf (stack s) (app crd) = int i" using indexOf_nth[OF d i] c by simp
  then have "indexOf (stack s) (app crd) \<noteq> int (length (stack s)) - 1" using l by simp
  then show "cardAction env crd ''close'' s = emit [Kill (app crd)] s"
    by (simp add: cardAction_def Let_def)
qed

lemma emit_inject: "emit f s = emit g s \<Longrightarrow> f = g"
proof -
  assume "emit f s = emit g s"
  then have "effects (emit f s) = effects (emit g s)" by simp
  then show "f = g" by simp
qed

lemma panToApp_tmABC:
  "panToApp envBC (Some (stack tmABC ! (length (stack tmABC) - 2))) False tmABC =
     (Timer 200, emit [ScrollTo (Num 185) True] tmABC)"
  by (simp add: panToApp_def tmABC_def envBC_def appA_def appB_def appC_def strictEquals_def
        CARD_GUTTER_def Let_def)

theorem cardAction_close_pans_then_kills_witness:
  "distinct (stack tmABC) \<and> 2 \<le> length (stack tmABC) \<and>
   app cardC = stack tmABC ! 2 \<and> app cardA = stack tmABC ! 0 \<and>
   cardAction envBC cardC ''close'' tmABC =
     tmABC\<lparr>effects := [ScrollTo (Num 185) True], pending := [(Timer 200, KillApp appC)]\<rparr> \<and>
   deliver envNone 0 (cardAction envBC cardC ''close'' tmABC) =
     Inr (tmABC\<lparr>effects := [ScrollTo (Num 185) True, Kill appC]\<rparr>) \<and>
   cardAction envBC cardA ''close'' tmABC = tmABC\<lparr>effects := [Kill appA]\<rparr>"
proof -
  have d: "distinct (stack tmABC)" by (simp add: tmABC_def appA_def appB_def appC_def)
  have n: "2 \<le> length (stack tmABC)" by (simp add: tmABC_def)
  have i2: "2 < length (stack tmABC)" and i0: "0 < length (stack tmABC)"
    by (simp_all add: tmABC_def)
  have c2: "app cardC = stack tmABC ! 2" by (simp add: tmABC_def cardC_def)
  have c0: "app cardA = stack tmABC ! 0" by (simp add: tmABC_def cardA_def)
  have l2: "2 = length (stack tmABC) - 1" by (simp add: tmABC_def)
  have l0: "0 < length (stack tmABC) - 1" by (simp add: tmABC_def)
  have pe: "pending tmABC = []" "effects tmABC = []" by (simp_all add: tmABC_def)
  have ac: "app cardC = appC" "app cardA = appA" by (simp_all add: cardC_def cardA_def)
  from cardAction_close_pans_then_kills[OF d n i2 c2, of envBC envNone] l2 obtain w f where
    p: "panToApp envBC (Some (stack tmABC ! (length (stack tmABC) - 2))) False tmABC = (w, emit f tmABC)"
    and ca: "cardAction envBC cardC ''close'' tmABC =
               (emit f tmABC)\<lparr>pending := pending tmABC @ [(w, KillApp (app cardC))]\<rparr>"
    and dl: "deliver envNone (length (pending tmABC)) (cardAction envBC cardC ''close'' tmABC) =
               Inr (emit (f @ [Kill (app cardC)]) tmABC)"
    by blast
  from p have w: "w = Timer 200" and "emit f tmABC = emit [ScrollTo (Num 185) True] tmABC"
    unfolding panToApp_tmABC by simp_all
  then have f: "f = [ScrollTo (Num 185) True]" by (intro emit_inject)
  have a: "cardAction envBC cardC ''close'' tmABC =
     tmABC\<lparr>effects := [ScrollTo (Num 185) True], pending := [(Timer 200, KillApp appC)]\<rparr>"
    using ca unfolding w f pe ac by (simp add: emit_def pe)
  have b: "deliver envNone 0 (cardAction envBC cardC ''close'' tmABC) =
     Inr (tmABC\<lparr>effects := [ScrollTo (Num 185) True, Kill appC]\<rparr>)"
    using dl unfolding w f pe ac by (simp add: emit_def pe)
  from cardAction_close_pans_then_kills[OF d n i0 c0, of envBC envNone] l0
  have "cardAction envBC cardA ''close'' tmABC = emit [Kill (app cardA)] tmABC" by blast
  then have e: "cardAction envBC cardA ''close'' tmABC = tmABC\<lparr>effects := [Kill appA]\<rparr>"
    unfolding ac by (simp add: emit_def pe)
  show ?thesis using d n c2 c0 a b e by blast
qed

subsection \<open>C7: showing\<close>

lemma published_append: "published (xs @ ys) = published xs @ published ys"
  by (induction xs rule: published.induct) auto

lemma published_none: "\<forall>x \<in> set f. \<not> isPublish x \<Longrightarrow> published f = []"
  by (induction f rule: published.induct) auto

lemma not_publish:
  "isRemoval x \<Longrightarrow> \<not> isPublish x"
  "isAddition x \<Longrightarrow> \<not> isPublish x"
  "isAriaWrite x \<Longrightarrow> \<not> isPublish x"
  by (cases x; simp)+

lemma layoutWrites_no_publish: "published (layoutWrites cw mg i as m) = []"
  by (rule published_none) (auto simp: layoutWrites_def)

lemma stackHeader_no_publish: "published (stackHeader s) = []"
  by (simp add: stackHeader_def)

lemma updateStack_control:
  assumes w: "wf s"
  shows "\<exists>s'. updateStack env s = Inr s' \<and> wf s' \<and>
           active s' = active s \<and> isTransitioning s' = isTransitioning s \<and>
           pending s' = pending s \<and> browserOnly s' = browserOnly s \<and>
           stack s' = latestStack env s \<and>
           effects s' = effects s @ effectsSince s s' \<and>
           published (effectsSince s s') = []"
proof -
  let ?st = "latestStack env s"
  let ?cw = "of_nat (innerWidth env) / 2 :: rat"
  from updateStack_run[OF w, of env] obtain m e c n fr fa fx where
    u: "updateStack env s =
       Inr (s\<lparr>appToCardMap := m, elementToCardMap := e, stack := ?st,
              currentCard := cardAtScroll env
                (s\<lparr>appToCardMap := m, stack := ?st, cardWidth := Num ?cw\<rparr>),
              cardWidth := Num ?cw,
              cardHeight := Num (of_nat (innerHeight env) / 2),
              cardsList := c, nextElement := n,
              effects := effects s @ stackHeader s @ fr @ fa @
                layoutWrites ?cw (of_nat (innerWidth env) - ?cw) 0 ?st m @
                [SetListWidth (contentWidth (innerWidth env) (length ?st))] @ fx\<rparr>)"
    and wm: "wfCards m c n"
    and fr: "\<forall>x \<in> set fr. isRemoval x"
    and fa: "\<forall>x \<in> set fa. isAddition x"
    and fx: "\<forall>x \<in> set fx. isAriaWrite x"
    by (elim exE conjE) (rule that)
  let ?L = "layoutWrites ?cw (of_nat (innerWidth env) - ?cw) 0 ?st m"
  let ?es = "stackHeader s @ fr @ fa @ ?L @
                [SetListWidth (contentWidth (innerWidth env) (length ?st))] @ fx"
  let ?s' = "s\<lparr>appToCardMap := m, elementToCardMap := e, stack := ?st,
              currentCard := cardAtScroll env
                (s\<lparr>appToCardMap := m, stack := ?st, cardWidth := Num ?cw\<rparr>),
              cardWidth := Num ?cw,
              cardHeight := Num (of_nat (innerHeight env) / 2),
              cardsList := c, nextElement := n,
              effects := effects s @ ?es\<rparr>"
  have es: "effectsSince s ?s' = ?es" by (simp add: effectsSince_def)
  have p: "published fr = []" "published fa = []" "published fx = []"
    using fr fa fx by (auto intro!: published_none dest: not_publish)
  have pe: "published ?es = []"
    by (simp only: published_append p layoutWrites_no_publish stackHeader_no_publish
          published.simps append.simps)
  show ?thesis
    apply (rule exI[of _ ?s'])
    unfolding es pe
    apply (intro conjI)
    subgoal using u .
    subgoal using wm by (simp add: wf_def)
    subgoal by simp
    subgoal by simp
    subgoal by simp
    subgoal by simp
    subgoal by simp
    subgoal by simp
    subgoal ..
    done
qed

lemma showAttach_ok:
  assumes w: "wf s" and na: "\<not> active s"
  shows "\<exists>s'. showAttach env s = Inr s' \<and> wf s' \<and> active s' \<and> \<not> isTransitioning s' \<and>
           pending s' = pending s @ [(AppToClose (getActiveWindow env), ShowFinish)] \<and>
           effects s' = effects s @ effectsSince s s' \<and>
           published (effectsSince s s') = [''taskmanager-activated'']"
proof -
  let ?A = "map (\<lambda>(t, e). AddEventListener t e) listeners"
  let ?s1 = "emit ?A s"
  have pa: "published ?A = []" by (simp add: listeners_def)
  have w1: "wf ?s1" using w by (simp add: wf_def)
  from updateStack_control[OF w1, of env] obtain s2 where
    u: "updateStack env ?s1 = Inr s2" and w2: "wf s2"
    and a2: "active s2 = active ?s1" and p2: "pending s2 = pending ?s1"
    and e2: "effects s2 = effects ?s1 @ effectsSince ?s1 s2"
    and q2: "published (effectsSince ?s1 s2) = []"
    by (elim exE conjE) (rule that)
  from panToApp_shape[of env "getCurrent env" True s2] obtain wt f where
    pn: "panToApp env (getCurrent env) True s2 = (wt, emit f s2)"
    and f: "\<forall>x \<in> set f. \<exists>p. x = ScrollTo p (\<not> True)"
    by (elim exE conjE) (rule that)
  have pf: "published f = []" using f by (auto intro!: published_none)
  let ?s3 = "emit f s2"
  let ?P = "[Publish ''taskmanager-activated'' None,
             ClassToggle ''task-manager'' ''active'' True,
             ClassToggle ''task-manager'' ''empty'' (length (stack s2) = 0)]"
  have na3: "\<not> active ?s3" using a2 na by simp
  have s4: "setActive True ?s3 = (emit (f @ ?P) s2)\<lparr>isTransitioning := False, active := True\<rparr>"
    using na3 by (simp add: setActive_def publish_def emit_def Let_def)
  let ?G = "(case getActiveWindow env of
              None \<Rightarrow> []
            | Some a \<Rightarrow> if isHomescreen a
                        then [AppClose a ''home-to-cardview'', ClassAdd ''task-manager'' ''from-home'']
                        else [])"
  have pg: "published ?G = []" by (simp split: option.splits)
  let ?s' = "(emit (f @ ?P @ ?G) s2)\<lparr>isTransitioning := False, active := True,
               pending := pending s2 @ [(AppToClose (getActiveWindow env), ShowFinish)]\<rparr>"
  have sa: "showAttach env s = Inr ?s'"
    unfolding showAttach_def Let_def u sum.case pn snd_conv s4
    by (simp add: emit_def split: option.splits)
  have ef: "effects ?s' = effects s @ (?A @ effectsSince ?s1 s2 @ f @ ?P @ ?G)"
    using e2 by simp
  have es: "effectsSince s ?s' = ?A @ effectsSince ?s1 s2 @ f @ ?P @ ?G"
    unfolding effectsSince_def ef by simp
  have pb: "published (?A @ effectsSince ?s1 s2 @ f @ ?P @ ?G) = [''taskmanager-activated'']"
    by (simp only: published_append pa q2 pf pg published.simps append.simps)
  show ?thesis
    apply (rule exI[of _ ?s'])
    unfolding es pb
    apply (intro conjI)
    subgoal using sa .
    subgoal using w2 by (simp add: wf_def)
    subgoal by simp
    subgoal by simp
    subgoal using p2 by simp
    subgoal using ef .
    subgoal ..
    done
qed

text \<open>
  C7. A call of \<^verbatim>\<open>show()\<close> while the task manager is shown or in a transition
  returns the state as it is: nothing is published, nothing is registered.
  So when \<^verbatim>\<open>show()\<close> is called on a hidden, idle task manager and called
  again before the screen is ready, and again after the listeners are attached
  and before the replaced window has closed, the later calls change nothing;
  the two callbacks of the first call run, and what has been published in all
  is \<^verbatim>\<open>cardviewbeforeshow\<close>, \<^verbatim>\<open>taskmanager-activated\<close> and one
  \<^verbatim>\<open>cardviewshown\<close>.
\<close>

theorem show_again_is_noop:
  assumes w: "wf s" and h: "\<not> isShown s" and t: "\<not> isTransitioning s"
  shows "(isShown u \<or> isTransitioning u \<longrightarrow> showTM bo u = u) \<and>
         showTM bo2 (showTM bo1 s) = showTM bo1 s \<and>
         (\<exists>s3 s5. deliver env (length (pending s)) (showTM bo2 (showTM bo1 s)) = Inr s3 \<and>
                  showTM bo3 s3 = s3 \<and>
                  deliver env' (length (pending s)) (showTM bo3 s3) = Inr s5 \<and>
                  effects s5 = effects s @ effectsSince s s5 \<and>
                  published (effectsSince s s5) =
                    [''cardviewbeforeshow'', ''taskmanager-activated'', ''cardviewshown''] \<and>
                  isShown s5 \<and> \<not> isTransitioning s5 \<and> pending s5 = pending s)"
proof (intro conjI)
  show "isShown u \<or> isTransitioning u \<longrightarrow> showTM bo u = u"
    by (simp add: showTM_def)
next
  let ?B = "[Publish ''cardviewbeforeshow'' None]"
  let ?s1 = "s\<lparr>isTransitioning := True, browserOnly := bo1, effects := effects s @ ?B,
               pending := pending s @ [(ScreenToBeReady, ShowAttach)]\<rparr>"
  have s1: "showTM bo1 s = ?s1"
    using h t by (simp add: showTM_def publish_def emit_def Let_def)
  show again: "showTM bo2 (showTM bo1 s) = showTM bo1 s"
    unfolding s1 by (simp add: showTM_def)
  let ?s1' = "s\<lparr>isTransitioning := True, browserOnly := bo1, effects := effects s @ ?B\<rparr>"
  have d1: "deliver env (length (pending s)) ?s1 = showAttach env ?s1'"
    by (simp add: deliver_def)
  have w1: "wf ?s1'" using w by (simp add: wf_def)
  have na: "\<not> active ?s1'" using h by (simp add: isShown_def isActive_def)
  from showAttach_ok[OF w1 na, of env] obtain s3 where
    a: "showAttach env ?s1' = Inr s3" and a3: "active s3" and t3: "\<not> isTransitioning s3"
    and p3: "pending s3 = pending ?s1' @ [(AppToClose (getActiveWindow env), ShowFinish)]"
    and e3: "effects s3 = effects ?s1' @ effectsSince ?s1' s3"
    and q3: "published (effectsSince ?s1' s3) = [''taskmanager-activated'']"
    by (elim exE conjE) (rule that)
  have n3: "showTM bo3 s3 = s3" using a3 by (simp add: showTM_def isShown_def isActive_def)
  let ?F = "[Publish ''cardviewshown'' None, ClassAdd ''screen'' ''cards-view'',
             ClassRemove ''task-manager'' ''from-home'']"
  let ?s5 = "s3\<lparr>pending := pending s, effects := effects s3 @ ?F\<rparr>"
  have p3': "pending s3 = pending s @ [(AppToClose (getActiveWindow env), ShowFinish)]"
    using p3 by simp
  have d2: "deliver env' (length (pending s)) s3 = Inr ?s5"
    unfolding deliver_def p3' 
    by (simp add: showFinish_def publish_def emit_def p3')
  have e5: "effects ?s5 = effects s @ (?B @ effectsSince ?s1' s3 @ ?F)"
    using e3 by simp
  have es: "effectsSince s ?s5 = ?B @ effectsSince ?s1' s3 @ ?F"
    unfolding effectsSince_def e5 by simp
  have pb: "published (?B @ effectsSince ?s1' s3 @ ?F) =
              [''cardviewbeforeshow'', ''taskmanager-activated'', ''cardviewshown'']"
    by (simp only: published_append q3 published.simps append.simps)
  show "\<exists>s3 s5. deliver env (length (pending s)) (showTM bo2 (showTM bo1 s)) = Inr s3 \<and>
                  showTM bo3 s3 = s3 \<and>
                  deliver env' (length (pending s)) (showTM bo3 s3) = Inr s5 \<and>
                  effects s5 = effects s @ effectsSince s s5 \<and>
                  published (effectsSince s s5) =
                    [''cardviewbeforeshow'', ''taskmanager-activated'', ''cardviewshown''] \<and>
                  isShown s5 \<and> \<not> isTransitioning s5 \<and> pending s5 = pending s"
    apply (rule exI[of _ s3], rule exI[of _ ?s5])
    unfolding again n3 es pb
    apply (intro conjI)
    subgoal unfolding s1 d1 using a .
    subgoal ..
    subgoal using d2 .
    subgoal using e5 .
    subgoal ..
    subgoal using a3 by (simp add: isShown_def isActive_def)
    subgoal using t3 by simp
    subgoal by simp
    done
qed

lemma wf_newTaskManager: "wf newTaskManager"
  by (simp add: wf_def wfCards_def newTaskManager_def)

theorem show_again_is_noop_witness:
  "wf newTaskManager \<and> \<not> isShown newTaskManager \<and> \<not> isTransitioning newTaskManager \<and>
   isShown tmA \<and> showTM True tmA = tmA \<and>
   showTM False (showTM False newTaskManager) = showTM False newTaskManager \<and>
   returned (deliver envBC 0 (showTM False (showTM False newTaskManager))) \<and>
   showTM False (stateOf (deliver envBC 0 (showTM False (showTM False newTaskManager)))) =
     stateOf (deliver envBC 0 (showTM False (showTM False newTaskManager))) \<and>
   published (effects (stateOf (deliver envBC 0
       (showTM False (stateOf (deliver envBC 0 (showTM False (showTM False newTaskManager)))))))) =
     [''cardviewbeforeshow'', ''taskmanager-activated'', ''cardviewshown'']"
proof -
  have h: "\<not> isShown newTaskManager" "\<not> isTransitioning newTaskManager"
    by (simp_all add: isShown_def isActive_def newTaskManager_def)
  have a: "isShown tmA" by (simp add: isShown_def isActive_def tmA_def)
  have p: "length (pending newTaskManager) = 0" "effects newTaskManager = []"
    by (simp_all add: newTaskManager_def)
  note t = show_again_is_noop[OF wf_newTaskManager h, of tmA True False False envBC False envBC,
      unfolded p]
  from t have n: "showTM True tmA = tmA" using a by blast
  from t have g: "showTM False (showTM False newTaskManager) = showTM False newTaskManager"
    by blast
  from t obtain s3 s5 where
    d1: "deliver envBC 0 (showTM False (showTM False newTaskManager)) = Inr s3"
    and n3: "showTM False s3 = s3"
    and d2: "deliver envBC 0 (showTM False s3) = Inr s5"
    and e5: "effects s5 = [] @ effectsSince newTaskManager s5"
    and pb: "published (effectsSince newTaskManager s5) =
               [''cardviewbeforeshow'', ''taskmanager-activated'', ''cardviewshown'']"
    by blast
  have s3: "stateOf (deliver envBC 0 (showTM False (showTM False newTaskManager))) = s3"
    unfolding d1 by (simp add: stateOf_def)
  have r: "returned (deliver envBC 0 (showTM False (showTM False newTaskManager)))"
    unfolding d1 by (simp add: returned_def)
  have s5: "stateOf (deliver envBC 0 (showTM False s3)) = s5"
    unfolding d2 by (simp add: stateOf_def)
  have pe: "published (effects s5) =
               [''cardviewbeforeshow'', ''taskmanager-activated'', ''cardviewshown'']"
    using pb e5 by simp
  show ?thesis
    unfolding s3 s5 using wf_newTaskManager h a n g r n3 pe by blast
qed

subsection \<open>C6: hiding\<close>

lemma left_listeners:
  "left (map (\<lambda>(t, e). RemoveEventListener t e) listeners) = []"
  "published (map (\<lambda>(t, e). RemoveEventListener t e) listeners) = []"
  by (simp_all add: listeners_def)

text \<open>
  C6 fails on the code. When \<^verbatim>\<open>hide()\<close> is called with no window, no window
  is active and there is no homescreen, the method has set
  \<^verbatim>\<open>_isTransitioning\<close>, removed the listeners and published
  \<^verbatim>\<open>cardviewclosed\<close> when it reads \<^verbatim>\<open>newApp.isHomescreen\<close> and throws.
  No teardown is registered and no window is told it has left; the task manager
  stays shown and in transition, and every later \<^verbatim>\<open>hide()\<close> and
  \<^verbatim>\<open>show()\<close> returns at its guard.
\<close>

theorem hide_without_target_throws:
  assumes "isShown s" and "\<not> isTransitioning s"
      and "getActiveWindow env = None" and "getHomescreen env = None"
  shows "\<exists>t. hideTM env None animation s = Inl (TypeError, t) \<and>
           isShown t \<and> isTransitioning t \<and>
           pending t = pending s \<and>
           appToCardMap t = appToCardMap s \<and>
           effects t = effects s @ effectsSince s t \<and>
           left (effectsSince s t) = [] \<and>
           published (effectsSince s t) = [''cardviewclosed''] \<and>
           hideTM env' a' animation' t = Inr t \<and>
           showTM bo t = t"
proof -
  let ?R = "map (\<lambda>(t, e). RemoveEventListener t e) listeners"
  let ?E = "?R @ [ClassRemove ''screen'' ''cards-view'', Publish ''cardviewclosed'' None]"
  let ?t = "s\<lparr>isTransitioning := True, effects := effects s @ ?E\<rparr>"
  have hd: "hideTM env None animation s = Inl (TypeError, ?t)"
    using assms by (simp add: hideTM_def publish_def emit_def Let_def)
  have es: "effectsSince s ?t = ?E" by (simp add: effectsSince_def)
  have l: "left ?E = []" by (simp only: left_append left_listeners left.simps append.simps)
  have p: "published ?E = [''cardviewclosed'']"
    by (simp only: published_append left_listeners published.simps append.simps)
  show ?thesis
    apply (rule exI[of _ ?t])
    unfolding es l p
    apply (intro conjI)
    subgoal using hd .
    subgoal using assms(1) by (simp add: isShown_def isActive_def)
    subgoal by simp
    subgoal by simp
    subgoal by simp
    subgoal by simp
    subgoal ..
    subgoal ..
    subgoal by (simp add: hideTM_def)
    subgoal by (simp add: showTM_def)
    done
qed

theorem hide_without_target_throws_witness:
  "isShown tmA \<and> \<not> isTransitioning tmA \<and>
   getActiveWindow envNone = None \<and> getHomescreen envNone = None \<and>
   \<not> returned (hideTM envNone None None tmA) \<and>
   isShown (stateOf (hideTM envNone None None tmA)) \<and>
   isTransitioning (stateOf (hideTM envNone None None tmA)) \<and>
   pending (stateOf (hideTM envNone None None tmA)) = [] \<and>
   appToCardMap (stateOf (hideTM envNone None None tmA)) = [(appA, cardA)] \<and>
   showTM False (stateOf (hideTM envNone None None tmA)) = stateOf (hideTM envNone None None tmA) \<and>
   hideTM envBC (Some appB) None (stateOf (hideTM envNone None None tmA)) =
     Inr (stateOf (hideTM envNone None None tmA))"
proof -
  have h: "isShown tmA" "\<not> isTransitioning tmA"
    "getActiveWindow envNone = None" "getHomescreen envNone = None"
    by (simp_all add: isShown_def isActive_def tmA_def envNone_def)
  from hide_without_target_throws[OF h, of None envBC "Some appB" None False] obtain t where
    t: "hideTM envNone None None tmA = Inl (TypeError, t)"
    "isShown t" "isTransitioning t" "pending t = pending tmA" "appToCardMap t = appToCardMap tmA"
    "hideTM envBC (Some appB) None t = Inr t" "showTM False t = t"
    by (elim exE conjE) (rule that)
  have s: "stateOf (hideTM envNone None None tmA) = t" unfolding t(1) by (simp add: stateOf_def)
  have r: "\<not> returned (hideTM envNone None None tmA)" unfolding t(1) by (simp add: returned_def)
  have m: "pending tmA = []" "appToCardMap tmA = [(appA, cardA)]" by (simp_all add: tmA_def)
  show ?thesis unfolding s using h r t(2-) m by simp
qed

text \<open>
  With a window to return to, \<^verbatim>\<open>hide()\<close> opens it and registers its teardown
  with \<^verbatim>\<open>eventSafety\<close> on the window's \<^verbatim>\<open>_opened\<close> event and the bound of
  1000; when the teardown runs, by the event or by the bound, the task manager
  is hidden and idle and every window of the stack has been told it has left.
\<close>

lemma hide_with_target_reaches_hidden:
  assumes w: "wf s" and sh: "isShown s" and nt: "\<not> isTransitioning s"
      and tg: "(case newApp of Some a \<Rightarrow> Some a
                | None \<Rightarrow> (case getActiveWindow env of Some a \<Rightarrow> Some a
                           | None \<Rightarrow> getHomescreen env)) = Some a"
  shows "\<exists>s1 s2. hideTM env newApp animation s = Inr s1 \<and>
           pending s1 = pending s @ [(EventSafety (instanceID a) ''_opened'' 1000, HideFinish)] \<and>
           deliver env' (length (pending s)) s1 = Inr s2 \<and>
           \<not> isShown s2 \<and> \<not> isTransitioning s2 \<and> pending s2 = pending s \<and>
           left (effectsSince s1 s2) = stack s"
proof -
  let ?R = "map (\<lambda>(t, e). RemoveEventListener t e) listeners"
  let ?d = "if indexOf (snapshot env) a \<noteq> - 1 then Some (nat (indexOf (snapshot env) a)) else None"
  let ?O = "if isHomescreen a
            then [ClassAdd ''task-manager'' ''to-home'', AppOpen a ''home-from-cardview'']
            else [AppOpen a (case animation of None \<Rightarrow> ''from-cardview''
                              | Some n \<Rightarrow> if n = [] then ''from-cardview'' else n)]"
  let ?E = "?R @ [ClassRemove ''screen'' ''cards-view'', Publish ''cardviewclosed'' ?d] @ ?O"
  let ?s0 = "s\<lparr>isTransitioning := True, effects := effects s @ ?E\<rparr>"
  let ?s1 = "?s0\<lparr>pending := pending s @ [(EventSafety (instanceID a) ''_opened'' 1000, HideFinish)]\<rparr>"
  have hd: "hideTM env newApp animation s = Inr ?s1"
    using sh nt tg by (simp add: hideTM_def publish_def emit_def Let_def)
  have dl: "deliver env' (length (pending s)) ?s1 = hideFinish ?s0"
    by (simp add: deliver_def)
  have w0: "wf ?s0" using w by (simp add: wf_def)
  have a0: "active ?s0" using sh by (simp add: isShown_def isActive_def)
  from hideFinish_ok[OF w0] obtain m e c f where
    hf: "hideFinish ?s0 =
       Inr (?s0\<lparr>appToCardMap := m, elementToCardMap := e, active := False,
              isTransitioning := (if active ?s0 then False else isTransitioning ?s0),
              cardsList := c, effects := effects ?s0 @ f\<rparr>)"
    and lf: "left f = stack ?s0"
    by (elim exE conjE) (rule that)
  let ?s2 = "?s0\<lparr>appToCardMap := m, elementToCardMap := e, active := False,
              isTransitioning := (if active ?s0 then False else isTransitioning ?s0),
              cardsList := c, effects := effects ?s0 @ f\<rparr>"
  have es: "effectsSince ?s1 ?s2 = f" by (simp add: effectsSince_def)
  show ?thesis
    apply (rule exI[of _ ?s1], rule exI[of _ ?s2])
    unfolding es
    apply (intro conjI)
    subgoal using hd .
    subgoal by simp
    subgoal unfolding dl using hf .
    subgoal by (simp add: isShown_def isActive_def)
    subgoal using a0 by simp
    subgoal by simp
    subgoal using lf by simp
    done
qed

subsection \<open>The invariant is kept\<close>

lemma wf_emit: "wf (emit f s) = wf s"
  by (simp add: wf_def)

lemma wf_setActive: "wf (setActive a s) = wf s"
  by (simp add: setActive_def publish_def wf_def Let_def)

lemma wf_showTM: "wf (showTM bo s) = wf s"
  by (simp add: showTM_def publish_def wf_def Let_def)

lemma wf_panToApp: "wf (snd (panToApp env a imm s)) = wf s"
  by (simp add: panToApp_def wf_def Let_def)

lemma wf_cardAction: "wf (cardAction env crd actionName s) = wf s"
proof -
  have p: "wf (case panToApp env a False s of
                 (w, s1) \<Rightarrow> s1\<lparr>pending := pending s1 @ [(w, k)]\<rparr>) = wf s" for a k
    by (cases "panToApp env a False s")
       (use wf_panToApp[of env a False s] in \<open>simp add: wf_def\<close>)
  show ?thesis
    by (simp add: cardAction_def Let_def wf_emit p del: arrayAt.simps)
qed

lemma wf_hideTM: "wf s \<Longrightarrow> wf (stateOf (hideTM env newApp animation s))"
  by (simp add: hideTM_def stateOf_def publish_def wf_def Let_def split: option.splits)

lemma wf_showAttach:
  assumes w: "wf s"
  shows "\<exists>s'. showAttach env s = Inr s' \<and> wf s'"
proof -
  let ?s1 = "emit (map (\<lambda>(t, e). AddEventListener t e) listeners) s"
  have w1: "wf ?s1" using w by (simp add: wf_emit)
  from updateStack_control[OF w1, of env] obtain s2 where
    u: "updateStack env ?s1 = Inr s2" and w2: "wf s2"
    by (elim exE conjE) (rule that)
  let ?s4 = "setActive True (snd (panToApp env (getCurrent env) True s2))"
  have w4: "wf ?s4" using w2 by (simp add: wf_setActive wf_panToApp)
  show ?thesis
    unfolding showAttach_def Let_def u sum.case
    using w4 by (auto simp: wf_def split: option.splits)
qed

lemma wf_hideFinish:
  assumes w: "wf s"
  shows "\<exists>s'. hideFinish s = Inr s' \<and> wf s'"
proof -
  from hideFinish_ok[OF w] obtain m e c f where
    h: "hideFinish s =
       Inr (s\<lparr>appToCardMap := m, elementToCardMap := e, active := False,
              isTransitioning := (if active s then False else isTransitioning s),
              cardsList := c, effects := effects s @ f\<rparr>)"
    and wm: "wfCards m c (nextElement s)"
    by (elim exE conjE) (rule that)
  show ?thesis unfolding h using wm by (simp add: wf_def)
qed

lemma wf_resume: "wf s \<Longrightarrow> wf (stateOf (resume env k s))"
proof (cases k)
  case ShowAttach
  assume "wf s"
  from wf_showAttach[OF this, of env] show ?thesis
    using ShowAttach by (auto simp: stateOf_def)
next
  case ShowFinish
  assume "wf s"
  then show ?thesis using ShowFinish by (simp add: stateOf_def showFinish_def publish_def wf_emit)
next
  case HideFinish
  assume "wf s"
  from wf_hideFinish[OF this] show ?thesis
    using HideFinish by (auto simp: stateOf_def)
next
  case (KillApp a)
  assume "wf s"
  then show ?thesis using KillApp by (simp add: stateOf_def wf_emit)
next
  case (HideApp a)
  assume "wf s"
  then show ?thesis using HideApp by (simp add: wf_hideTM)
qed

lemma wf_deliver: "wf s \<Longrightarrow> wf (stateOf (deliver env i s))"
proof -
  assume w: "wf s"
  have "wf (s\<lparr>pending := take i (pending s) @ drop (Suc i) (pending s)\<rparr>)"
    using w by (simp add: wf_def)
  from wf_resume[OF this] show ?thesis
    using w by (simp add: deliver_def stateOf_def)
qed

end
